theory Spec2Isabelle
  imports Main "HOL-Library.Sublist" "HOL-Library.Multiset"
begin

section \<open>Strings as the page's code uses them\<close>

text \<open>
  A JavaScript string is modelled as a \<^typ>\<open>string\<close> whose characters are the code
  units below 256 (ASCII and Latin-1).
\<close>

definition is_ws :: "char \<Rightarrow> bool" where
  \<comment> \<open>the white space and line terminators that \<open>String.prototype.trim\<close> removes\<close>
  "is_ws c = (of_char c \<in> {9, 10, 11, 12, 13, 32, 160 :: nat})"

definition trim :: "string \<Rightarrow> string" where
  "trim s = rev (dropWhile is_ws (rev (dropWhile is_ws s)))"

definition ascii_lower :: "char \<Rightarrow> char" where
  \<comment> \<open>case folding of the \<open>i\<close> flag against a pattern of ASCII letters\<close>
  "ascii_lower c =
     (let n = of_char c :: nat in if 65 \<le> n \<and> n \<le> 90 then char_of (n + 32) else c)"

definition lower_char :: "char \<Rightarrow> char" where
  \<comment> \<open>\<open>toLowerCase\<close> on one code unit below 256\<close>
  "lower_char c =
     (let n = of_char c :: nat
      in if (65 \<le> n \<and> n \<le> 90) \<or> (192 \<le> n \<and> n \<le> 222 \<and> n \<noteq> 215)
         then char_of (n + 32) else c)"

definition toLowerCase :: "string \<Rightarrow> string" where
  "toLowerCase s = map lower_char s"

section \<open>The CSV parser\<close>

subsection \<open>\<open>parseCSVLine\<close>: the quoted-field splitter\<close>

text \<open>
  The loop of \<open>parseCSVLine\<close> over the characters of the line; its state is
  \<open>inQuotes\<close>, \<open>current\<close> and \<open>result\<close>. The look-ahead \<open>line[i + 1] === '"'\<close>
  followed by \<open>i++\<close> is the first branch of the second equation; at the last character
  there is no next one to look at.
\<close>

fun csv_loop :: "bool \<Rightarrow> string \<Rightarrow> string list \<Rightarrow> string \<Rightarrow> string list" where
  "csv_loop inQuotes current result [] = result @ [current]"
| "csv_loop True current result (ch # nxt # rest) =
     (if ch = CHR 0x22 \<and> nxt = CHR 0x22 then csv_loop True (current @ [CHR 0x22]) result rest
      else if ch = CHR 0x22 then csv_loop False current result (nxt # rest)
      else csv_loop True (current @ [ch]) result (nxt # rest))"
| "csv_loop True current result [ch] =
     (if ch = CHR 0x22 then csv_loop False current result []
      else csv_loop True (current @ [ch]) result [])"
| "csv_loop False current result (ch # rest) =
     (if ch = CHR 0x22 then csv_loop True current result rest
      else if ch = CHR '','' then csv_loop False [] (result @ [current]) rest
      else csv_loop False (current @ [ch]) result rest)"

definition parseCSVLine :: "string \<Rightarrow> string list" where
  "parseCSVLine line = csv_loop False [] [] line"

subsection \<open>\<open>parseCSV\<close>\<close>

text \<open>\<open>text.split(/\r?\n/)\<close>: a line feed ends a line and takes a carriage return before it along.\<close>

fun split_lines :: "string \<Rightarrow> string \<Rightarrow> string list" where
  "split_lines cur [] = [cur]"
| "split_lines cur [c] = (if c = CHR 0x0A then [cur, []] else [cur @ [c]])"
| "split_lines cur (c # d # rest) =
     (if c = CHR 0x0D \<and> d = CHR 0x0A then cur # split_lines [] rest
      else if c = CHR 0x0A then cur # split_lines [] (d # rest)
      else split_lines (cur @ [c]) (d # rest))"

text \<open>\<open>headerLine.split(',')\<close>\<close>

fun split_comma :: "string \<Rightarrow> string \<Rightarrow> string list" where
  "split_comma cur [] = [cur]"
| "split_comma cur (c # cs) =
     (if c = CHR '','' then cur # split_comma [] cs else split_comma (cur @ [c]) cs)"

definition is_quote :: "char \<Rightarrow> bool" where
  "is_quote c = (c = CHR 0x22 \<or> c = CHR 0x27)"

definition strip_quotes :: "string \<Rightarrow> string" where
  \<comment> \<open>\<open>replace(/^["']|["']$/g, '')\<close>: one quote off the front, then one off the end of the rest\<close>
  "strip_quotes h =
     (let h1 = (case h of [] \<Rightarrow> [] | c # cs \<Rightarrow> if is_quote c then cs else h)
      in if h1 \<noteq> [] \<and> is_quote (last h1) then butlast h1 else h1)"

text \<open>
  The two header patterns, \<open>/^(name|full.?name|contact.?name|person)$/i\<close> and
  \<open>/^(company|organization|org|company.?name|employer)$/i\<close>. A pattern letter matches
  either case; \<open>.\<close> matches one code unit that is no line terminator, and \<open>.?\<close> that or
  nothing.
\<close>

definition dot :: "char \<Rightarrow> bool" where
  "dot c = (c \<noteq> CHR 0x0A \<and> c \<noteq> CHR 0x0D)"

definition lit_ci :: "string \<Rightarrow> string \<Rightarrow> bool" where
  "lit_ci pat s = (map ascii_lower s = pat)"

definition opt_dot_ci :: "string \<Rightarrow> string \<Rightarrow> string \<Rightarrow> bool" where
  "opt_dot_ci pre post s =
     (lit_ci (pre @ post) s
      \<or> (length s = length pre + 1 + length post
         \<and> lit_ci pre (take (length pre) s)
         \<and> dot (s ! length pre)
         \<and> lit_ci post (drop (length pre + 1) s)))"

definition name_re :: "string \<Rightarrow> bool" where
  "name_re h =
     (lit_ci ''name'' h \<or> opt_dot_ci ''full'' ''name'' h
      \<or> opt_dot_ci ''contact'' ''name'' h \<or> lit_ci ''person'' h)"

definition company_re :: "string \<Rightarrow> bool" where
  "company_re h =
     (lit_ci ''company'' h \<or> lit_ci ''organization'' h \<or> lit_ci ''org'' h
      \<or> opt_dot_ci ''company'' ''name'' h \<or> lit_ci ''employer'' h)"

text \<open>\<open>Array.prototype.findIndex\<close>; \<open>None\<close> is its \<open>-1\<close>.\<close>

fun findIndex :: "('a \<Rightarrow> bool) \<Rightarrow> 'a list \<Rightarrow> nat option" where
  "findIndex P [] = None"
| "findIndex P (x # xs) = (if P x then Some 0 else map_option Suc (findIndex P xs))"

text \<open>A \<open>ParsedRow\<close> is an object with string keys and string values.\<close>

type_synonym ParsedRow = "string \<rightharpoonup> string"

definition set_key :: "ParsedRow \<Rightarrow> string \<Rightarrow> string \<Rightarrow> ParsedRow" where
  \<comment> \<open>\<open>row[h] = v\<close>; assigning a string to \<open>__proto__\<close> leaves the object as it is\<close>
  "set_key row h v = (if h = ''__proto__'' then row else row(h \<mapsto> v))"

definition resolved_name :: "nat option \<Rightarrow> string list \<Rightarrow> string" where
  \<comment> \<open>\<open>nameIdx >= 0 && nameIdx < values.length ? values[nameIdx].trim() : values[0]?.trim() ?? ''\<close>\<close>
  "resolved_name nameIdx values =
     (case nameIdx of
        Some i \<Rightarrow> if i < length values then trim (values ! i)
                  else (case values of [] \<Rightarrow> [] | v # _ \<Rightarrow> trim v)
      | None \<Rightarrow> (case values of [] \<Rightarrow> [] | v # _ \<Rightarrow> trim v))"

definition resolved_company :: "nat option \<Rightarrow> string list \<Rightarrow> string" where
  "resolved_company companyIdx values =
     (case companyIdx of
        Some i \<Rightarrow> if i < length values then trim (values ! i)
                  else if 1 < length values then trim (values ! 1) else []
      | None \<Rightarrow> if 1 < length values then trim (values ! 1) else [])"

definition copy_headers :: "ParsedRow \<Rightarrow> string list \<Rightarrow> string list \<Rightarrow> ParsedRow" where
  \<comment> \<open>\<open>headers.forEach((h, idx) => { if (idx < values.length) row[h] = values[idx].trim() })\<close>\<close>
  "copy_headers row headers values =
     foldl (\<lambda>r (h, v). set_key r h (trim v)) row (zip headers values)"

definition buildRow :: "string list \<Rightarrow> nat option \<Rightarrow> nat option \<Rightarrow> string list \<Rightarrow> ParsedRow" where
  "buildRow headers nameIdx companyIdx values =
     copy_headers
       [''name'' \<mapsto> resolved_name nameIdx values,
        ''company'' \<mapsto> resolved_company companyIdx values]
       headers values"

definition str_truthy :: "string option \<Rightarrow> bool" where
  "str_truthy v = (case v of None \<Rightarrow> False | Some s \<Rightarrow> s \<noteq> [])"

fun rows_loop :: "string list \<Rightarrow> nat option \<Rightarrow> nat option \<Rightarrow> string list \<Rightarrow> ParsedRow list" where
  "rows_loop headers nameIdx companyIdx [] = []"
| "rows_loop headers nameIdx companyIdx (line # lines) =
     (let values = parseCSVLine line
      in if length values = 0 then rows_loop headers nameIdx companyIdx lines
         else let row = buildRow headers nameIdx companyIdx values
              in if str_truthy (row ''name'') \<or> str_truthy (row ''company'')
                 then row # rows_loop headers nameIdx companyIdx lines
                 else rows_loop headers nameIdx companyIdx lines)"

definition nonblank_lines :: "string \<Rightarrow> string list" where
  "nonblank_lines text = filter (\<lambda>l. length (trim l) > 0) (split_lines [] text)"

definition parse_headers :: "string \<Rightarrow> string list" where
  "parse_headers headerLine = map (\<lambda>h. strip_quotes (trim h)) (split_comma [] headerLine)"

definition parseCSV :: "string \<Rightarrow> ParsedRow list" where
  "parseCSV text =
     (let lines = nonblank_lines text
      in if length lines < 2 then []
         else let headers = parse_headers (lines ! 0);
                  nameIdx = findIndex name_re headers;
                  companyIdx = findIndex company_re headers
              in rows_loop headers nameIdx companyIdx (drop 1 lines))"

section \<open>The values of the agent's response\<close>

text \<open>
  A value that the page reads from the agent: \<open>null\<close>, a boolean, a number, a string, an
  array or an object. Numbers are modelled as integers, which is what the counts of a
  summary are; a fraction has no model here. An object is the list of its own
  enumerable properties in the order in which \<open>Object.keys\<close> enumerates them, each key
  once. A missing property, JavaScript's \<open>undefined\<close>, is \<open>None\<close> in
  \<^typ>\<open>'a option\<close>. The type is a codatatype, so that an object graph with a cycle is
  a value too: the unfolding of the graph, which is all that code reading it can see.
\<close>

codatatype json =
    JNull
  | JBool bool
  | JNum int
  | JStr string
  | JArr "json list"
  | JObj "(string \<times> json) list"

text \<open>\<open>!v\<close>\<close>

fun falsy :: "json \<Rightarrow> bool" where
  "falsy JNull = True"
| "falsy (JBool b) = (\<not> b)"
| "falsy (JNum n) = (n = 0)"
| "falsy (JStr s) = (s = [])"
| "falsy (JArr xs) = False"
| "falsy (JObj kvs) = False"

text \<open>\<open>typeof v === 'object'\<close>\<close>

fun typeof_object :: "json \<Rightarrow> bool" where
  "typeof_object JNull = True"
| "typeof_object (JArr xs) = True"
| "typeof_object (JObj kvs) = True"
| "typeof_object _ = False"

text \<open>The decimal digits of a number, which are also the keys of an array's elements.\<close>

fun show_nat :: "nat \<Rightarrow> string" where
  "show_nat n = (if n < 10 then [char_of (48 + n)] else show_nat (n div 10) @ [char_of (48 + n mod 10)])"

declare show_nat.simps [simp del]

definition index_keys :: "'a list \<Rightarrow> string list" where
  "index_keys xs = map show_nat [0..<length xs]"

text \<open>
  \<open>v[k]\<close> and \<open>v.k\<close> for a value that is neither \<open>null\<close> nor \<open>undefined\<close>, and for
  a key that is no method of a prototype.
\<close>

fun get_prop :: "json \<Rightarrow> string \<Rightarrow> json option" where
  "get_prop (JObj kvs) k = map_of kvs k"
| "get_prop (JArr xs) k =
     (if k = ''length'' then Some (JNum (int (length xs))) else map_of (zip (index_keys xs) xs) k)"
| "get_prop (JStr s) k =
     (if k = ''length'' then Some (JNum (int (length s)))
      else map_of (zip (index_keys s) (map (\<lambda>c. JStr [c]) s)) k)"
| "get_prop v k = None"

text \<open>\<open>Object.keys(v)\<close>\<close>

fun own_keys :: "json \<Rightarrow> string list" where
  "own_keys (JObj kvs) = map fst kvs"
| "own_keys (JArr xs) = index_keys xs"
| "own_keys (JStr s) = index_keys s"
| "own_keys v = []"

fun isString :: "json \<Rightarrow> bool" where
  "isString (JStr s) = True"
| "isString v = False"

fun str_of :: "json \<Rightarrow> string" where
  "str_of (JStr s) = s"
| "str_of v = []"

fun isArray :: "json option \<Rightarrow> bool" where
  "isArray (Some (JArr xs)) = True"
| "isArray v = False"

fun items :: "json option \<Rightarrow> json list" where
  "items (Some (JArr xs)) = xs"
| "items v = []"

text \<open>\<open>v == null\<close>, and \<open>v ?? null\<close>\<close>

fun nullish :: "json option \<Rightarrow> bool" where
  "nullish None = True"
| "nullish (Some JNull) = True"
| "nullish v = False"

fun or_null :: "json option \<Rightarrow> json" where
  "or_null None = JNull"
| "or_null (Some v) = v"

section \<open>\<open>deepExtractEnrichedData\<close>\<close>

record extraction =
  enriched :: "json list"
  summary :: json
  artifacts :: "json list"

definition empty_result :: extraction where
  "empty_result = \<lparr>enriched = [], summary = JNull, artifacts = []\<rparr>"

definition wrapperKeys :: "string list" where
  "wrapperKeys = [''result'', ''response'', ''data'', ''output'', ''content'', ''message'', ''text'']"

text \<open>\<open>k in v\<close>, for an object \<open>v\<close>\<close>

definition in_op :: "string \<Rightarrow> json option \<Rightarrow> bool" where
  "in_op k v = (case v of None \<Rightarrow> False | Some x \<Rightarrow> get_prop x k \<noteq> None)"

text \<open>
  \<open>v && typeof v === 'object'\<close>, which is also \<open>typeof v === 'object' && v !== null\<close>:
  an array or an object.
\<close>

definition truthy_object :: "json option \<Rightarrow> bool" where
  "truthy_object v = (case v of None \<Rightarrow> False | Some x \<Rightarrow> \<not> falsy x \<and> typeof_object x)"

text \<open>
  The extraction, with the lenient decoder \<open>parseLLMJson\<close> as a parameter (\<open>None\<close> when
  it throws). The two loops with an early \<open>return\<close>, over the wrapper keys and over all
  keys, are \<open>tryWrappers\<close> and \<open>scanValues\<close>; they give \<open>None\<close> when the loop runs to
  its end.
\<close>

function deepExtract :: "(string \<Rightarrow> json option) \<Rightarrow> json \<Rightarrow> nat \<Rightarrow> extraction"
  and tryWrappers :: "(string \<Rightarrow> json option) \<Rightarrow> json \<Rightarrow> string list \<Rightarrow> nat \<Rightarrow> extraction option"
  and scanValues :: "(string \<Rightarrow> json option) \<Rightarrow> json \<Rightarrow> string list \<Rightarrow> nat \<Rightarrow> extraction option"
where
  "deepExtract parseLLMJson obj depth =
     (if falsy obj \<or> depth > 10 then empty_result
      else if isString obj then
        (case parseLLMJson (str_of obj) of
           Some parsed \<Rightarrow>
             (if truthy_object (Some parsed) then deepExtract parseLLMJson parsed (depth + 1)
              else empty_result)
         | None \<Rightarrow> empty_result)
      else if \<not> typeof_object obj then empty_result
      else if isArray (get_prop obj ''enriched_data'')
              \<and> length (items (get_prop obj ''enriched_data'')) > 0
      then \<lparr>enriched = items (get_prop obj ''enriched_data''),
            summary = or_null (get_prop obj ''summary''),
            artifacts = (if isArray (get_prop obj ''artifact_files'')
                         then items (get_prop obj ''artifact_files'') else [])\<rparr>
      else if isArray (Some obj) \<and> length (items (Some obj)) > 0
              \<and> truthy_object (get_prop obj ''0'')
              \<and> (in_op ''name'' (get_prop obj ''0'') \<or> in_op ''company'' (get_prop obj ''0''))
              \<and> (in_op ''revenue'' (get_prop obj ''0'') \<or> in_op ''sector'' (get_prop obj ''0'')
                   \<or> in_op ''decision_maker'' (get_prop obj ''0''))
      then \<lparr>enriched = items (Some obj), summary = JNull, artifacts = []\<rparr>
      else
        (case tryWrappers parseLLMJson obj wrapperKeys depth of
           Some inner \<Rightarrow> inner
         | None \<Rightarrow>
             (case find (\<lambda>key. key = ''enriched_data'' \<and> isArray (get_prop obj key)) (own_keys obj) of
                Some key \<Rightarrow> \<lparr>enriched = items (get_prop obj key),
                             summary = or_null (get_prop obj ''summary''), artifacts = []\<rparr>
              | None \<Rightarrow>
                  (case scanValues parseLLMJson obj (own_keys obj) depth of
                     Some inner \<Rightarrow> inner
                   | None \<Rightarrow> empty_result))))"
| "tryWrappers parseLLMJson obj [] depth = None"
| "tryWrappers parseLLMJson obj (key # keys) depth =
     (if \<not> nullish (get_prop obj key)
      then let inner = deepExtract parseLLMJson (or_null (get_prop obj key)) (depth + 1)
           in if length (enriched inner) > 0 then Some inner
              else tryWrappers parseLLMJson obj keys depth
      else tryWrappers parseLLMJson obj keys depth)"
| "scanValues parseLLMJson obj [] depth = None"
| "scanValues parseLLMJson obj (key # keys) depth =
     (if truthy_object (get_prop obj key)
      then let inner = deepExtract parseLLMJson (or_null (get_prop obj key)) (depth + 1)
           in if length (enriched inner) > 0 then Some inner
              else scanValues parseLLMJson obj keys depth
      else scanValues parseLLMJson obj keys depth)"
  by pat_completeness auto
termination
  by (relation "measures
        [\<lambda>x. case x of
                Inl (p, obj, d) \<Rightarrow> if d \<le> 10 then 2 * (11 - d) + 2 else 0
              | Inr (Inl (p, obj, ks, d)) \<Rightarrow> 2 * (11 - d) + 1
              | Inr (Inr (p, obj, ks, d)) \<Rightarrow> 2 * (11 - d) + 1,
         \<lambda>x. case x of
                Inl (p, obj, d) \<Rightarrow> 0
              | Inr (Inl (p, obj, ks, d)) \<Rightarrow> length ks
              | Inr (Inr (p, obj, ks, d)) \<Rightarrow> length ks]")
     auto

declare deepExtract.simps [simp del]

section \<open>Normalizing the extracted records\<close>

text \<open>
  \<open>String(v)\<close>. The text of a number, \<open>Number.prototype.toString\<close>, is a parameter.
  So is the text of an array, \<open>Array.prototype.toString\<close>: it joins the texts of the
  elements, which is no recursion on a value that may be its own element.
\<close>

fun js_String :: "(int \<Rightarrow> string) \<Rightarrow> (json list \<Rightarrow> string) \<Rightarrow> json \<Rightarrow> string" where
  "js_String Number_toString Array_toString JNull = ''null''"
| "js_String Number_toString Array_toString (JBool b) = (if b then ''true'' else ''false'')"
| "js_String Number_toString Array_toString (JNum n) = Number_toString n"
| "js_String Number_toString Array_toString (JStr s) = s"
| "js_String Number_toString Array_toString (JArr xs) = Array_toString xs"
| "js_String Number_toString Array_toString (JObj kvs) = ''[object Object]''"

text \<open>\<open>r.k1 ?? r.k2 ?? ... ?? d\<close>: the first of the properties that is neither missing nor \<open>null\<close>.\<close>

fun first_present :: "json \<Rightarrow> string list \<Rightarrow> json \<Rightarrow> json" where
  "first_present r [] d = d"
| "first_present r (k # ks) d =
     (if nullish (get_prop r k) then first_present r ks d else or_null (get_prop r k))"

definition name_aliases :: "string list" where
  "name_aliases = [''name'', ''person_name'', ''contact_name'', ''full_name'']"

definition company_aliases :: "string list" where
  "company_aliases = [''company'', ''company_name'', ''organization'']"

definition revenue_aliases :: "string list" where
  "revenue_aliases = [''revenue'', ''company_revenue'', ''annual_revenue'']"

definition sector_aliases :: "string list" where
  "sector_aliases = [''sector'', ''industry'', ''company_sector'']"

definition decision_maker_aliases :: "string list" where
  "decision_maker_aliases = [''decision_maker'', ''is_decision_maker'', ''decisionMaker'']"

definition job_title_aliases :: "string list" where
  "job_title_aliases = [''job_title'', ''title'', ''role'', ''position'', ''jobTitle'']"

definition confidence_aliases :: "string list" where
  "confidence_aliases = [''confidence'', ''confidence_level'', ''confidenceLevel'']"

record EnrichedRecord =
  name :: string
  company :: string
  revenue :: string
  sector :: string
  decision_maker :: string
  job_title :: string
  confidence :: string

text \<open>
  The function mapped over \<open>extracted.enriched\<close>. Reading a property of \<open>null\<close> throws a
  \<open>TypeError\<close>, which is \<open>None\<close> here.
\<close>

definition normalizeRecord ::
  "(int \<Rightarrow> string) \<Rightarrow> (json list \<Rightarrow> string) \<Rightarrow> json \<Rightarrow> EnrichedRecord option" where
  "normalizeRecord Number_toString Array_toString r =
     (if nullish (Some r) then None
      else Some
        \<lparr>name = js_String Number_toString Array_toString (first_present r name_aliases (JStr '''')),
         company = js_String Number_toString Array_toString (first_present r company_aliases (JStr '''')),
         revenue = js_String Number_toString Array_toString (first_present r revenue_aliases (JStr ''N/A'')),
         sector = js_String Number_toString Array_toString (first_present r sector_aliases (JStr ''N/A'')),
         decision_maker =
           js_String Number_toString Array_toString (first_present r decision_maker_aliases (JStr ''N/A'')),
         job_title = js_String Number_toString Array_toString (first_present r job_title_aliases (JStr ''N/A'')),
         confidence =
           js_String Number_toString Array_toString (first_present r confidence_aliases (JStr ''Low''))\<rparr>)"

text \<open>
  \<open>extracted.enriched.map(...)\<close>; an exception thrown for one element ends the whole map,
  so the result is \<open>None\<close> as soon as one element gives \<open>None\<close>.
\<close>

definition normalizedEnriched ::
  "(int \<Rightarrow> string) \<Rightarrow> (json list \<Rightarrow> string) \<Rightarrow> extraction
   \<Rightarrow> EnrichedRecord list option" where
  "normalizedEnriched Number_toString Array_toString extracted =
     those (map (normalizeRecord Number_toString Array_toString) (enriched extracted))"

section \<open>The summary\<close>



text \<open>\<open>/pat/i.test(s)\<close> for a pattern of lower-case letters: \<open>s\<close> contains it in either case.\<close>

fun regex_test_ci :: "string \<Rightarrow> string \<Rightarrow> bool" where
  "regex_test_ci pat [] = (pat = [])"
| "regex_test_ci pat (c # cs) =
     (lit_ci pat (take (length pat) (c # cs)) \<or> regex_test_ci pat cs)"



section \<open>\<open>extractArtifactFiles\<close>\<close>

text \<open>\<open>v?.k\<close>; a missing property is as falsy as \<open>null\<close>.\<close>

definition opt_prop :: "json option \<Rightarrow> string \<Rightarrow> json option" where
  "opt_prop v k = (if nullish v then None else get_prop (or_null v) k)"

text \<open>The locator, with \<open>JSON.parse\<close> as a parameter (\<open>None\<close> when it throws).\<close>

definition extractArtifactFiles :: "(string \<Rightarrow> json option) \<Rightarrow> json \<Rightarrow> json list" where
  "extractArtifactFiles JSON_parse result =
     (if falsy result then []
      else if isArray (opt_prop (get_prop result ''module_outputs'') ''artifact_files'')
              \<and> length (items (opt_prop (get_prop result ''module_outputs'') ''artifact_files'')) > 0
      then items (opt_prop (get_prop result ''module_outputs'') ''artifact_files'')
      else if isArray (opt_prop (opt_prop (get_prop result ''response'') ''module_outputs'')
                         ''artifact_files'')
              \<and> length (items (opt_prop (opt_prop (get_prop result ''response'') ''module_outputs'')
                                  ''artifact_files'')) > 0
      then items (opt_prop (opt_prop (get_prop result ''response'') ''module_outputs'')
                    ''artifact_files'')
      else if \<not> falsy (or_null (get_prop result ''raw_response''))
              \<and> isString (or_null (get_prop result ''raw_response''))
      then (case JSON_parse (str_of (or_null (get_prop result ''raw_response''))) of
              None \<Rightarrow> []
            | Some raw \<Rightarrow>
                if isArray (opt_prop (opt_prop (Some raw) ''module_outputs'') ''artifact_files'')
                then items (opt_prop (opt_prop (Some raw) ''module_outputs'') ''artifact_files'')
                else if isArray (opt_prop (opt_prop (opt_prop (Some raw) ''response'')
                                             ''module_outputs'') ''artifact_files'')
                then items (opt_prop (opt_prop (opt_prop (Some raw) ''response'')
                                        ''module_outputs'') ''artifact_files'')
                else [])
      else [])"

section \<open>Filtering and sorting the records\<close>

datatype FilterMode = Mode_all | Mode_low_confidence | Mode_decision_makers

datatype SortField =
  Field_name | Field_company | Field_revenue | Field_sector | Field_confidence
  | Field_job_title | Field_decision_maker

datatype SortDir = Asc | Desc

datatype View = View_upload | View_results

text \<open>\<open>r[sortField]\<close>\<close>

fun field_value :: "SortField \<Rightarrow> EnrichedRecord \<Rightarrow> string" where
  "field_value Field_name r = name r"
| "field_value Field_company r = company r"
| "field_value Field_revenue r = revenue r"
| "field_value Field_sector r = sector r"
| "field_value Field_confidence r = confidence r"
| "field_value Field_job_title r = job_title r"
| "field_value Field_decision_maker r = decision_maker r"

text \<open>\<open>a < b\<close> on strings: the lexicographic order of the code units.\<close>

fun str_less :: "string \<Rightarrow> string \<Rightarrow> bool" where
  "str_less [] [] = False"
| "str_less [] (y # ys) = True"
| "str_less (x # xs) [] = False"
| "str_less (x # xs) (y # ys) =
     (if (of_char x :: nat) < of_char y then True
      else if (of_char y :: nat) < of_char x then False
      else str_less xs ys)"

definition sortValue :: "SortField \<Rightarrow> EnrichedRecord \<Rightarrow> string" where
  \<comment> \<open>\<open>(a[sortField] ?? '').toString().toLowerCase()\<close>\<close>
  "sortValue sortField r = toLowerCase (field_value sortField r)"

definition compareFn :: "SortField \<Rightarrow> SortDir \<Rightarrow> EnrichedRecord \<Rightarrow> EnrichedRecord \<Rightarrow> int" where
  "compareFn sortField sortDir a b =
     (let aVal = sortValue sortField a; bVal = sortValue sortField b
      in if str_less aVal bVal then (if sortDir = Asc then - 1 else 1)
         else if str_less bVal aVal then (if sortDir = Asc then 1 else - 1)
         else 0)"

text \<open>
  \<open>Array.prototype.sort\<close> with a comparison function is a stable sort. It is modelled by
  the insertion of the elements, from the last to the first, each before the first element
  that it does not come after.
\<close>

fun insert_sorted :: "('a \<Rightarrow> 'a \<Rightarrow> int) \<Rightarrow> 'a \<Rightarrow> 'a list \<Rightarrow> 'a list" where
  "insert_sorted cmp x [] = [x]"
| "insert_sorted cmp x (y # ys) =
     (if cmp x y \<le> 0 then x # y # ys else y # insert_sorted cmp x ys)"

definition js_sort :: "('a \<Rightarrow> 'a \<Rightarrow> int) \<Rightarrow> 'a list \<Rightarrow> 'a list" where
  "js_sort cmp xs = foldr (insert_sorted cmp) xs []"

definition applyFilter :: "FilterMode \<Rightarrow> EnrichedRecord list \<Rightarrow> EnrichedRecord list" where
  "applyFilter filterMode data =
     (if filterMode = Mode_low_confidence
      then filter (\<lambda>r. regex_test_ci ''low'' (confidence r)) data
      else if filterMode = Mode_decision_makers
      then filter (\<lambda>r. regex_test_ci ''yes'' (decision_maker r)) data
      else data)"

definition filterSort ::
  "FilterMode \<Rightarrow> SortField \<Rightarrow> SortDir \<Rightarrow> EnrichedRecord list \<Rightarrow> EnrichedRecord list" where
  "filterSort filterMode sortField sortDir data =
     js_sort (compareFn sortField sortDir) (applyFilter filterMode data)"

definition SAMPLE_ENRICHED :: "EnrichedRecord list" where
  "SAMPLE_ENRICHED =
     [\<lparr>name = ''Sarah Chen'', company = ''TechFlow Inc'', revenue = ''$45M'',
       sector = ''Enterprise SaaS'', decision_maker = ''Yes'',
       job_title = ''VP of Engineering'', confidence = ''High''\<rparr>,
      \<lparr>name = ''Marcus Johnson'', company = ''DataVault Systems'', revenue = ''$120M'',
       sector = ''Data Infrastructure'', decision_maker = ''Yes'',
       job_title = ''CTO'', confidence = ''High''\<rparr>,
      \<lparr>name = ''Elena Rodriguez'', company = ''CloudBridge Solutions'', revenue = ''$28M'',
       sector = ''Cloud Computing'', decision_maker = ''No'',
       job_title = ''Senior Developer'', confidence = ''Low''\<rparr>,
      \<lparr>name = ''James Park'', company = ''NexGen Analytics'', revenue = ''$75M'',
       sector = ''Business Intelligence'', decision_maker = ''Yes'',
       job_title = ''Director of Product'', confidence = ''High''\<rparr>,
      \<lparr>name = ''Priya Sharma'', company = ''InnoWave Corp'', revenue = ''$15M'',
       sector = ''IoT Solutions'', decision_maker = ''No'',
       job_title = ''Data Analyst'', confidence = ''Low''\<rparr>]"

record page_state =
  enrichedData :: "EnrichedRecord list"
  filterMode :: FilterMode
  sortField :: SortField
  sortDir :: SortDir
  sampleMode :: bool
  view :: View

definition getFilteredData :: "page_state \<Rightarrow> EnrichedRecord list" where
  "getFilteredData st =
     (let data = (if sampleMode st \<and> view st = View_results \<and> length (enrichedData st) = 0
                  then SAMPLE_ENRICHED else enrichedData st)
      in filterSort (filterMode st) (sortField st) (sortDir st) data)"

section \<open>Notions used to state the properties\<close>

subsection \<open>Rows and lines of a text\<close>

text \<open>The headers of a text, and the row that \<open>parseCSV\<close> builds for one data line of it.\<close>

definition header_fields :: "string \<Rightarrow> string list" where
  "header_fields text = parse_headers (nonblank_lines text ! 0)"

definition row_of_line :: "string \<Rightarrow> string \<Rightarrow> ParsedRow" where
  "row_of_line text line =
     buildRow (header_fields text) (findIndex name_re (header_fields text))
       (findIndex company_re (header_fields text)) (parseCSVLine line)"

definition row_names :: "ParsedRow list \<Rightarrow> string option list" where
  "row_names rows = map (\<lambda>row. row ''name'') rows"

definition data_lines :: "string \<Rightarrow> string list" where
  "data_lines text = drop 1 (nonblank_lines text)"

definition both_empty :: "ParsedRow \<Rightarrow> bool" where
  "both_empty row = (\<not> str_truthy (row ''name'') \<and> \<not> str_truthy (row ''company''))"



fun join_comma :: "string list \<Rightarrow> string" where
  "join_comma [] = []"
| "join_comma [f] = f"
| "join_comma (f # g # fs) = f @ CHR '','' # join_comma (g # fs)"

subsection \<open>The recursion of the extraction\<close>

text \<open>
  The recursion of the extraction. An activation is a call of \<open>deepExtract\<close> or one of
  its two loops at some key list; \<open>calls caller callee\<close> holds when the activation
  \<open>caller\<close> makes the recursive call \<open>callee\<close>. It is the call relation that the
  definition of \<open>deepExtract\<close> gives rise to.
\<close>

type_synonym call =
  "(string \<Rightarrow> json option) \<times> json \<times> nat
   + (string \<Rightarrow> json option) \<times> json \<times> string list \<times> nat
   + (string \<Rightarrow> json option) \<times> json \<times> string list \<times> nat"

definition calls :: "call \<Rightarrow> call \<Rightarrow> bool" where
  "calls caller callee = deepExtract_tryWrappers_scanValues_rel callee caller"

fun call_depth :: "call \<Rightarrow> nat" where
  "call_depth (Inl (p, obj, depth)) = depth"
| "call_depth (Inr (Inl (p, obj, keys, depth))) = depth"
| "call_depth (Inr (Inr (p, obj, keys, depth))) = depth"

fun is_deepExtract :: "call \<Rightarrow> bool" where
  "is_deepExtract (Inl c) = True"
| "is_deepExtract (Inr c) = False"

text \<open>The two measures that decrease, lexicographically, along every recursive call.\<close>

definition call_measure :: "call \<Rightarrow> nat" where
  "call_measure c =
     (case c of
        Inl (p, obj, d) \<Rightarrow> if d \<le> 10 then 2 * (11 - d) + 2 else 0
      | Inr (Inl (p, obj, ks, d)) \<Rightarrow> 2 * (11 - d) + 1
      | Inr (Inr (p, obj, ks, d)) \<Rightarrow> 2 * (11 - d) + 1)"

definition call_keys :: "call \<Rightarrow> nat" where
  "call_keys c =
     (case c of
        Inl (p, obj, d) \<Rightarrow> 0
      | Inr (Inl (p, obj, ks, d)) \<Rightarrow> length ks
      | Inr (Inr (p, obj, ks, d)) \<Rightarrow> length ks)"

subsection \<open>The specification's wording\<close>

text \<open>
  The name column as the specification words it: the first header equal, without regard
  to case, to one of six fixed strings.
\<close>

definition spec_name_aliases :: "string list" where
  "spec_name_aliases =
     [''name'', ''full name'', ''full.name'', ''contact name'', ''contact.name'', ''person'']"

definition spec_name_column :: "string list \<Rightarrow> nat option" where
  "spec_name_column headers = findIndex (\<lambda>h. map ascii_lower h \<in> set spec_name_aliases) headers"


section \<open>Sample inputs\<close>

text \<open>Sample texts.\<close>

definition csv_sample :: string where
  "csv_sample = ''full_name,Name'' @ [CHR 0x0A] @ ''Ada,Bob''"

definition csv_overwrite :: string where
  "csv_overwrite = ''Name,Company,name'' @ [CHR 0x0A] @ '',,Zed''"

definition csv_overwrite2 :: string where
  "csv_overwrite2 = ''Name,Company,name,company'' @ [CHR 0x0A] @ ''Ann,Acme,,''"

text \<open>
  A self-referential object, \<open>o = {self: o}\<close>, and an object nested \<open>n\<close> levels deep
  around a value.
\<close>

primcorec cyclic :: "unit \<Rightarrow> json" where
  "cyclic u = JObj (map (map_prod id cyclic) [(''self'', u)])"

fun nested :: "nat \<Rightarrow> json \<Rightarrow> json" where
  "nested 0 v = v"
| "nested (Suc n) v = JObj [(''level'', nested n v)]"

text \<open>A record as the agent is asked to return it, and a decoder that always fails.\<close>

definition sample_record :: json where
  "sample_record =
     JObj [(''name'', JStr ''Jane Doe''), (''company'', JStr ''Acme Corp''),
           (''revenue'', JStr ''$10M''), (''sector'', JStr ''SaaS''),
           (''decision_maker'', JStr ''Yes''), (''job_title'', JStr ''CTO''),
           (''confidence'', JStr ''High'')]"

definition no_parse :: "string \<Rightarrow> json option" where
  "no_parse s = None"

text \<open>An object with an empty \<open>enriched_data\<close> and records under another key.\<close>

definition hidden_data :: json where
  "hidden_data =
     JObj [(''enriched_data'', JArr []), (''summary'', JStr ''none''),
           (''artifact_files'', JArr [JStr ''f'']),
           (''other'', JObj [(''enriched_data'', JArr [sample_record])])]"

text \<open>
  Instances of the parameters for the examples: the text of an integer in decimal digits
  (that of a number of magnitude below \<open>10^21\<close>), the text of an array without nested
  arrays, the number denoted by a string of decimal digits, and a lenient decoder that
  knows one text.
\<close>

definition show_int :: "int \<Rightarrow> string" where
  "show_int n = (if n < 0 then CHR ''-'' # show_nat (nat (- n)) else show_nat (nat n))"

fun flat_text :: "json \<Rightarrow> string" where
  "flat_text JNull = []"
| "flat_text (JBool b) = (if b then ''true'' else ''false'')"
| "flat_text (JNum n) = show_int n"
| "flat_text (JStr s) = s"
| "flat_text (JArr xs) = []"
| "flat_text (JObj kvs) = ''[object Object]''"

definition flat_toString :: "json list \<Rightarrow> string" where
  "flat_toString xs = join_comma (map flat_text xs)"





definition sample_text :: string where
  "sample_text = ''Here is the data: {...}''"

definition sample_parse :: "string \<Rightarrow> json option" where
  "sample_parse s =
     (if s = sample_text then Some (JObj [(''enriched_data'', JArr [sample_record])]) else None)"

definition sample_normalized :: EnrichedRecord where
  "sample_normalized =
     \<lparr>name = ''Jane Doe'', company = ''Acme Corp'', revenue = ''$10M'', sector = ''SaaS'',
      decision_maker = ''Yes'', job_title = ''CTO'', confidence = ''High''\<rparr>"




text \<open>
  A raw response whose first artifact path holds an empty array and whose second path
  holds a file, with a \<open>JSON.parse\<close> that knows this text.
\<close>

definition dq :: string where
  "dq = [CHR 0x22]"

definition raw_text :: string where
  "raw_text =
     ''{'' @ dq @ ''module_outputs'' @ dq @ '':{'' @ dq @ ''artifact_files'' @ dq @ '':[]},''
     @ dq @ ''response'' @ dq @ '':{'' @ dq @ ''module_outputs'' @ dq @ '':{''
     @ dq @ ''artifact_files'' @ dq @ '':[{'' @ dq @ ''file_url'' @ dq @ '':'' @ dq @ ''u'' @ dq
     @ ''}]}}}''"

definition raw_value :: json where
  "raw_value =
     JObj [(''module_outputs'', JObj [(''artifact_files'', JArr [])]),
           (''response'',
            JObj [(''module_outputs'',
                   JObj [(''artifact_files'', JArr [JObj [(''file_url'', JStr ''u'')]])])])]"

definition raw_parse :: "string \<Rightarrow> json option" where
  "raw_parse s = (if s = raw_text then Some raw_value else None)"

text \<open>Records whose texts differ in the case of their letters.\<close>

definition mixed_case_records :: "EnrichedRecord list" where
  "mixed_case_records =
     [\<lparr>name = ''a'', company = ''beta'', revenue = ''1'', sector = ''s'',
       decision_maker = ''yes'', job_title = ''t'', confidence = ''High''\<rparr>,
      \<lparr>name = ''b'', company = ''Acme'', revenue = ''2'', sector = ''s'',
       decision_maker = ''Yes'', job_title = ''t'', confidence = ''LOW''\<rparr>,
      \<lparr>name = ''c'', company = ''ACME'', revenue = ''3'', sector = ''s'',
       decision_maker = ''YES'', job_title = ''t'', confidence = ''High''\<rparr>,
      \<lparr>name = ''d'', company = ''Zeta'', revenue = ''4'', sector = ''s'',
       decision_maker = ''No'', job_title = ''t'', confidence = ''Low''\<rparr>,
      \<lparr>name = ''e'', company = ''alpha'', revenue = ''5'', sector = ''s'',
       decision_maker = ''Probably yes'', job_title = ''t'', confidence = ''High''\<rparr>]"

text \<open>The page showing the sample records' decision makers by company, descending.\<close>

definition sample_state :: page_state where
  "sample_state =
     \<lparr>enrichedData = SAMPLE_ENRICHED, filterMode = Mode_decision_makers,
      sortField = Field_company, sortDir = Desc, sampleMode = False, view = View_results\<rparr>"

section \<open>Properties of the quoted-field splitter\<close>







section \<open>Properties of \<open>parseCSV\<close>\<close>

lemma findIndex_Some:
  "findIndex P xs = Some i \<Longrightarrow> i < length xs \<and> P (xs ! i) \<and> (\<forall>j<i. \<not> P (xs ! j))"
proof (induction xs arbitrary: i)
  case Nil
  then show ?case by simp
next
  case (Cons x xs)
  show ?case
  proof (cases "P x")
    case True
    then show ?thesis using Cons.prems by simp
  next
    case False
    then obtain k where k: "findIndex P xs = Some k" "i = Suc k"
      using Cons.prems by auto
    have "\<forall>j<Suc k. \<not> P ((x # xs) ! j)"
      using Cons.IH [OF k(1)] False by (auto simp: less_Suc_eq_0_disj)
    then show ?thesis using Cons.IH [OF k(1)] k(2) by simp
  qed
qed

lemma findIndex_None: "findIndex P xs = None \<longleftrightarrow> (\<forall>x \<in> set xs. \<not> P x)"
  by (induction xs) auto

lemma lit_ci_append:
  "lit_ci (p @ q) s \<longleftrightarrow> (\<exists>a b. s = a @ b \<and> lit_ci p a \<and> lit_ci q b)"
  unfolding lit_ci_def by (auto simp: map_eq_append_conv)

lemma opt_dot_ci_iff:
  "opt_dot_ci pre post s \<longleftrightarrow>
     (\<exists>a x b. s = a @ x @ b \<and> lit_ci pre a \<and> lit_ci post b \<and> length x \<le> 1 \<and> (\<forall>c \<in> set x. dot c))"
proof
  assume "opt_dot_ci pre post s"
  then consider (none) "lit_ci (pre @ post) s"
    | (one) "length s = length pre + 1 + length post" "lit_ci pre (take (length pre) s)"
        "dot (s ! length pre)" "lit_ci post (drop (length pre + 1) s)"
    unfolding opt_dot_ci_def by blast
  then show "\<exists>a x b. s = a @ x @ b \<and> lit_ci pre a \<and> lit_ci post b \<and> length x \<le> 1 \<and> (\<forall>c \<in> set x. dot c)"
  proof cases
    case none
    then obtain a b where "s = a @ b" "lit_ci pre a" "lit_ci post b"
      unfolding lit_ci_append by blast
    then have "s = a @ [] @ b \<and> lit_ci pre a \<and> lit_ci post b \<and> length ([]::string) \<le> 1
               \<and> (\<forall>c \<in> set ([]::string). dot c)" by simp
    then show ?thesis by blast
  next
    case one
    let ?a = "take (length pre) s" and ?x = "[s ! length pre]" and ?b = "drop (length pre + 1) s"
    have "s = ?a @ ?x @ ?b"
      using one(1) by (metis Cons_nth_drop_Suc Suc_eq_plus1 add.commute append_Cons append_Nil append_take_drop_id less_add_same_cancel2 less_add_Suc1 trans_less_add1 zero_less_one add.assoc)
    then show ?thesis using one by (metis One_nat_def le_refl length_Cons list.size(3) list.set_cases list.inject list.distinct(1) empty_iff set_ConsD empty_set)
  qed
next
  assume "\<exists>a x b. s = a @ x @ b \<and> lit_ci pre a \<and> lit_ci post b \<and> length x \<le> 1 \<and> (\<forall>c \<in> set x. dot c)"
  then obtain a x b where h: "s = a @ x @ b" "lit_ci pre a" "lit_ci post b" "length x \<le> 1" "\<forall>c \<in> set x. dot c"
    by blast
  have la: "length a = length pre" and lb: "length b = length post"
    using h(2,3) unfolding lit_ci_def by (metis length_map)+
  show "opt_dot_ci pre post s"
  proof (cases x)
    case Nil
    then show ?thesis using h unfolding opt_dot_ci_def lit_ci_def by simp
  next
    case (Cons c cs)
    then have x: "x = [c]" using h(4) by simp
    then show ?thesis using h la lb unfolding opt_dot_ci_def by (simp add: nth_append)
  qed
qed

lemma csv_loop_nonempty: "csv_loop q cur res s \<noteq> []"
  by (induction q cur res s rule: csv_loop.induct) auto

lemma parseCSVLine_nonempty: "parseCSVLine line \<noteq> []"
  by (simp add: parseCSVLine_def csv_loop_nonempty)

lemma copy_fold_keep:
  "k \<noteq> ''__proto__'' \<Longrightarrow> row k = Some x \<Longrightarrow> \<forall>(h, v) \<in> set hvs. h = k \<longrightarrow> trim v = x \<Longrightarrow>
   foldl (\<lambda>r (h, v). set_key r h (trim v)) row hvs k = Some x"
proof (induction hvs arbitrary: row)
  case Nil
  then show ?case by simp
next
  case (Cons p hvs)
  obtain h v where p: "p = (h, v)" by (cases p)
  have "set_key row h (trim v) k = Some x"
    using Cons.prems p by (auto simp: set_key_def)
  then show ?case using Cons.IH [of "set_key row h (trim v)"] Cons.prems p by simp
qed

lemma buildRow_name:
  assumes "\<forall>i < min (length headers) (length values). headers ! i = ''name'' \<longrightarrow> nameIdx = Some i"
  shows "buildRow headers nameIdx companyIdx values ''name'' = Some (resolved_name nameIdx values)"
proof -
  have "\<forall>(h, v) \<in> set (zip headers values). h = ''name'' \<longrightarrow> trim v = resolved_name nameIdx values"
  proof (clarify)
    fix h v assume "(''name'', v) \<in> set (zip headers values)"
    then obtain i where i: "i < min (length headers) (length values)" "headers ! i = ''name''" "values ! i = v"
      by (auto simp: set_zip)
    then have "nameIdx = Some i" using assms by blast
    then show "trim v = resolved_name nameIdx values"
      using i by (simp add: resolved_name_def)
  qed
  then show ?thesis
    unfolding buildRow_def copy_headers_def
    by (intro copy_fold_keep) auto
qed

lemma buildRow_company:
  assumes "\<forall>i < min (length headers) (length values). headers ! i = ''company'' \<longrightarrow> companyIdx = Some i"
  shows "buildRow headers nameIdx companyIdx values ''company'' = Some (resolved_company companyIdx values)"
proof -
  have "\<forall>(h, v) \<in> set (zip headers values). h = ''company'' \<longrightarrow> trim v = resolved_company companyIdx values"
  proof (clarify)
    fix h v assume "(''company'', v) \<in> set (zip headers values)"
    then obtain i where i: "i < min (length headers) (length values)" "headers ! i = ''company''" "values ! i = v"
      by (auto simp: set_zip)
    then have "companyIdx = Some i" using assms by blast
    then show "trim v = resolved_company companyIdx values"
      using i by (simp add: resolved_company_def)
  qed
  then show ?thesis
    unfolding buildRow_def copy_headers_def
    by (intro copy_fold_keep) auto
qed

lemma rows_loop_eq:
  "rows_loop hs ni ci ls =
     filter (\<lambda>row. \<not> both_empty row) (map (\<lambda>l. buildRow hs ni ci (parseCSVLine l)) ls)"
  by (induction ls) (auto simp: Let_def both_empty_def parseCSVLine_nonempty)

lemma parseCSV_rows:
  "parseCSV text = filter (\<lambda>row. \<not> both_empty row) (map (row_of_line text) (data_lines text))"
  if "2 \<le> length (nonblank_lines text)"
proof -
  have "row_of_line text = (\<lambda>l. buildRow (parse_headers (nonblank_lines text ! 0))
          (findIndex name_re (parse_headers (nonblank_lines text ! 0)))
          (findIndex company_re (parse_headers (nonblank_lines text ! 0))) (parseCSVLine l))"
    by (rule ext) (simp add: row_of_line_def header_fields_def)
  then show ?thesis
    using that by (simp add: parseCSV_def rows_loop_eq data_lines_def Let_def)
qed

lemma parseCSV_short: "length (nonblank_lines text) < 2 \<Longrightarrow> parseCSV text = []"
  by (simp add: parseCSV_def)


lemma name_re_iff:
  "name_re h \<longleftrightarrow>
     map ascii_lower h = ''name''
     \<or> (\<exists>a x b. h = a @ x @ b \<and> map ascii_lower a = ''full'' \<and> map ascii_lower b = ''name''
            \<and> length x \<le> 1 \<and> (\<forall>c \<in> set x. c \<noteq> CHR 0x0A \<and> c \<noteq> CHR 0x0D))
     \<or> (\<exists>a x b. h = a @ x @ b \<and> map ascii_lower a = ''contact'' \<and> map ascii_lower b = ''name''
            \<and> length x \<le> 1 \<and> (\<forall>c \<in> set x. c \<noteq> CHR 0x0A \<and> c \<noteq> CHR 0x0D))
     \<or> map ascii_lower h = ''person''"
  unfolding name_re_def opt_dot_ci_iff lit_ci_def dot_def by (rule refl)

lemma company_re_iff:
  "company_re h \<longleftrightarrow>
     map ascii_lower h = ''company'' \<or> map ascii_lower h = ''organization''
     \<or> map ascii_lower h = ''org''
     \<or> (\<exists>a x b. h = a @ x @ b \<and> map ascii_lower a = ''company'' \<and> map ascii_lower b = ''name''
            \<and> length x \<le> 1 \<and> (\<forall>c \<in> set x. c \<noteq> CHR 0x0A \<and> c \<noteq> CHR 0x0D))
     \<or> map ascii_lower h = ''employer''"
  unfolding company_re_def opt_dot_ci_iff lit_ci_def dot_def by (rule refl)

lemma resolved_name_cases:
  "values \<noteq> [] \<Longrightarrow>
   resolved_name nameIdx values
     = (case nameIdx of
          Some i \<Rightarrow> if i < length values then trim (values ! i) else trim (values ! 0)
        | None \<Rightarrow> trim (values ! 0))"
  by (cases "values") (auto simp: resolved_name_def split: option.splits)

lemma parseCSV_rows_from_lines:
  "\<forall>row \<in> set (parseCSV text). \<exists>line \<in> set (data_lines text). row = row_of_line text line"
proof (cases "2 \<le> length (nonblank_lines text)")
  case True
  then show ?thesis using parseCSV_rows [OF True] by auto
next
  case False
  then show ?thesis using parseCSV_short [of "text"] by simp
qed

text \<open>
  Claim C5, as amended. A header is the name column when the whole of it matches, without
  regard to case, \<open>name\<close>, \<open>person\<close>, or \<open>full\<close> or \<open>contact\<close> followed by at most one
  arbitrary character (no line terminator) and \<open>name\<close>; the company column likewise with
  \<open>company\<close>, \<open>organization\<close>, \<open>org\<close>, \<open>employer\<close> and \<open>company\<close>, at most one
  character, \<open>name\<close>. The detected column is the first such header. Every row that
  \<open>parseCSV\<close> returns is the row built for one of the data lines, and its \<open>name\<close> is the
  trimmed value at the detected index, or the trimmed first value when no column was
  detected or the index is out of range (for \<open>company\<close>: the second value, or the empty
  string when the line has a single value), as long as no header with a value on the line
  and the very text \<open>name\<close> (\<open>company\<close>) sits at another column than the detected one.
\<close>

theorem parseCSV_name_column:
  "(name_re h \<longleftrightarrow>
      map ascii_lower h = ''name''
      \<or> (\<exists>a x b. h = a @ x @ b \<and> map ascii_lower a = ''full'' \<and> map ascii_lower b = ''name''
             \<and> length x \<le> 1 \<and> (\<forall>c \<in> set x. c \<noteq> CHR 0x0A \<and> c \<noteq> CHR 0x0D))
      \<or> (\<exists>a x b. h = a @ x @ b \<and> map ascii_lower a = ''contact'' \<and> map ascii_lower b = ''name''
             \<and> length x \<le> 1 \<and> (\<forall>c \<in> set x. c \<noteq> CHR 0x0A \<and> c \<noteq> CHR 0x0D))
      \<or> map ascii_lower h = ''person'')
   \<and> (company_re h \<longleftrightarrow>
      map ascii_lower h = ''company'' \<or> map ascii_lower h = ''organization''
      \<or> map ascii_lower h = ''org''
      \<or> (\<exists>a x b. h = a @ x @ b \<and> map ascii_lower a = ''company'' \<and> map ascii_lower b = ''name''
             \<and> length x \<le> 1 \<and> (\<forall>c \<in> set x. c \<noteq> CHR 0x0A \<and> c \<noteq> CHR 0x0D))
      \<or> map ascii_lower h = ''employer'')
   \<and> (findIndex name_re (header_fields text) = Some i \<longrightarrow>
        i < length (header_fields text) \<and> name_re (header_fields text ! i)
        \<and> (\<forall>j<i. \<not> name_re (header_fields text ! j)))
   \<and> (findIndex name_re (header_fields text) = None \<longrightarrow>
        (\<forall>h' \<in> set (header_fields text). \<not> name_re h'))
   \<and> (findIndex company_re (header_fields text) = Some k \<longrightarrow>
        k < length (header_fields text) \<and> company_re (header_fields text ! k)
        \<and> (\<forall>j<k. \<not> company_re (header_fields text ! j)))
   \<and> (findIndex company_re (header_fields text) = None \<longrightarrow>
        (\<forall>h' \<in> set (header_fields text). \<not> company_re h'))
   \<and> (\<forall>row \<in> set (parseCSV text). \<exists>line \<in> set (data_lines text). row = row_of_line text line)
   \<and> ((\<forall>j < min (length (header_fields text)) (length (parseCSVLine line)).
          header_fields text ! j = ''name'' \<longrightarrow> findIndex name_re (header_fields text) = Some j)
        \<longrightarrow> row_of_line text line ''name''
            = Some (case findIndex name_re (header_fields text) of
                      Some n \<Rightarrow> if n < length (parseCSVLine line) then trim (parseCSVLine line ! n)
                                else trim (parseCSVLine line ! 0)
                    | None \<Rightarrow> trim (parseCSVLine line ! 0)))
   \<and> ((\<forall>j < min (length (header_fields text)) (length (parseCSVLine line)).
          header_fields text ! j = ''company'' \<longrightarrow> findIndex company_re (header_fields text) = Some j)
        \<longrightarrow> row_of_line text line ''company''
            = Some (case findIndex company_re (header_fields text) of
                      Some n \<Rightarrow> if n < length (parseCSVLine line) then trim (parseCSVLine line ! n)
                                else if 1 < length (parseCSVLine line)
                                     then trim (parseCSVLine line ! 1) else []
                    | None \<Rightarrow> if 1 < length (parseCSVLine line)
                              then trim (parseCSVLine line ! 1) else []))"
proof (intro conjI)
  show "name_re h \<longleftrightarrow>
      map ascii_lower h = ''name''
      \<or> (\<exists>a x b. h = a @ x @ b \<and> map ascii_lower a = ''full'' \<and> map ascii_lower b = ''name''
             \<and> length x \<le> 1 \<and> (\<forall>c \<in> set x. c \<noteq> CHR 0x0A \<and> c \<noteq> CHR 0x0D))
      \<or> (\<exists>a x b. h = a @ x @ b \<and> map ascii_lower a = ''contact'' \<and> map ascii_lower b = ''name''
             \<and> length x \<le> 1 \<and> (\<forall>c \<in> set x. c \<noteq> CHR 0x0A \<and> c \<noteq> CHR 0x0D))
      \<or> map ascii_lower h = ''person''"
    by (rule name_re_iff)
  show "company_re h \<longleftrightarrow>
      map ascii_lower h = ''company'' \<or> map ascii_lower h = ''organization''
      \<or> map ascii_lower h = ''org''
      \<or> (\<exists>a x b. h = a @ x @ b \<and> map ascii_lower a = ''company'' \<and> map ascii_lower b = ''name''
             \<and> length x \<le> 1 \<and> (\<forall>c \<in> set x. c \<noteq> CHR 0x0A \<and> c \<noteq> CHR 0x0D))
      \<or> map ascii_lower h = ''employer''"
    by (rule company_re_iff)
  show "findIndex name_re (header_fields text) = Some i \<longrightarrow>
        i < length (header_fields text) \<and> name_re (header_fields text ! i)
        \<and> (\<forall>j<i. \<not> name_re (header_fields text ! j))"
    using findIndex_Some [of name_re "header_fields text" i] by blast
  show "findIndex name_re (header_fields text) = None \<longrightarrow>
        (\<forall>h' \<in> set (header_fields text). \<not> name_re h')"
    by (simp add: findIndex_None)
  show "findIndex company_re (header_fields text) = Some k \<longrightarrow>
        k < length (header_fields text) \<and> company_re (header_fields text ! k)
        \<and> (\<forall>j<k. \<not> company_re (header_fields text ! j))"
    using findIndex_Some [of company_re "header_fields text" k] by blast
  show "findIndex company_re (header_fields text) = None \<longrightarrow>
        (\<forall>h' \<in> set (header_fields text). \<not> company_re h')"
    by (simp add: findIndex_None)
  show "\<forall>row \<in> set (parseCSV text). \<exists>line \<in> set (data_lines text). row = row_of_line text line"
    by (rule parseCSV_rows_from_lines)
  show "(\<forall>j < min (length (header_fields text)) (length (parseCSVLine line)).
          header_fields text ! j = ''name'' \<longrightarrow> findIndex name_re (header_fields text) = Some j)
        \<longrightarrow> row_of_line text line ''name''
            = Some (case findIndex name_re (header_fields text) of
                      Some n \<Rightarrow> if n < length (parseCSVLine line) then trim (parseCSVLine line ! n)
                                else trim (parseCSVLine line ! 0)
                    | None \<Rightarrow> trim (parseCSVLine line ! 0))"
    unfolding row_of_line_def
    using buildRow_name [of "header_fields text" "parseCSVLine line" "findIndex name_re (header_fields text)"]
      resolved_name_cases [OF parseCSVLine_nonempty, of "findIndex name_re (header_fields text)" line]
    by simp
  show "(\<forall>j < min (length (header_fields text)) (length (parseCSVLine line)).
          header_fields text ! j = ''company'' \<longrightarrow> findIndex company_re (header_fields text) = Some j)
        \<longrightarrow> row_of_line text line ''company''
            = Some (case findIndex company_re (header_fields text) of
                      Some n \<Rightarrow> if n < length (parseCSVLine line) then trim (parseCSVLine line ! n)
                                else if 1 < length (parseCSVLine line)
                                     then trim (parseCSVLine line ! 1) else []
                    | None \<Rightarrow> if 1 < length (parseCSVLine line)
                              then trim (parseCSVLine line ! 1) else [])"
    unfolding row_of_line_def
    using buildRow_company [of "header_fields text" "parseCSVLine line" "findIndex company_re (header_fields text)"]
    by (simp add: resolved_company_def)
qed

theorem parseCSV_name_column_witness:
  "name_re ''full_name''
   \<and> findIndex name_re (header_fields csv_sample) = Some 0
   \<and> findIndex company_re (header_fields csv_sample) = None
   \<and> row_of_line csv_sample ''Ada,Bob'' ''name'' = Some ''Ada''
   \<and> row_of_line csv_sample ''Ada,Bob'' ''company'' = Some ''Bob''"
proof -
  have hs: "header_fields csv_sample = [''full_name'', ''Name'']" by code_simp
  have vs: "parseCSVLine ''Ada,Bob'' = [''Ada'', ''Bob'']" by code_simp
  have ni: "findIndex name_re [''full_name'', ''Name''] = Some 0" by code_simp
  have ci: "findIndex company_re [''full_name'', ''Name''] = None" by code_simp
  have tr: "trim ''Ada'' = ''Ada''" "trim ''Bob'' = ''Bob''" by code_simp+
  have re: "name_re ''full_name''" by code_simp
  have free_n: "\<forall>j < min (length (header_fields csv_sample)) (length (parseCSVLine ''Ada,Bob'')).
          header_fields csv_sample ! j = ''name'' \<longrightarrow> findIndex name_re (header_fields csv_sample) = Some j"
    by (simp add: hs vs ni less_Suc_eq)
  have free_c: "\<forall>j < min (length (header_fields csv_sample)) (length (parseCSVLine ''Ada,Bob'')).
          header_fields csv_sample ! j = ''company'' \<longrightarrow> findIndex company_re (header_fields csv_sample) = Some j"
    by (simp add: hs vs ci less_Suc_eq)
  note T = parseCSV_name_column [of "''full_name''" csv_sample 0 0 "''Ada,Bob''"]
  note n = T [THEN conjunct2, THEN conjunct2, THEN conjunct2, THEN conjunct2, THEN conjunct2,
              THEN conjunct2, THEN conjunct2, THEN conjunct1, THEN mp, OF free_n]
  note c = T [THEN conjunct2, THEN conjunct2, THEN conjunct2, THEN conjunct2, THEN conjunct2,
              THEN conjunct2, THEN conjunct2, THEN conjunct2, THEN mp, OF free_c]
  have "row_of_line csv_sample ''Ada,Bob'' ''name'' = Some ''Ada''"
    using n [unfolded hs vs ni] by (simp add: tr)
  moreover have "row_of_line csv_sample ''Ada,Bob'' ''company'' = Some ''Bob''"
    using c [unfolded hs vs ci] by (simp add: tr)
  ultimately show ?thesis using re unfolding hs ni ci by simp
qed


text \<open>
  Claim C5 as stated fails: with the headers \<open>full_name,Name\<close> the first header equal to
  one of the six listed strings is the second one, the code detects the first one, and the
  row's name is the first value, not the second.
\<close>

theorem parseCSV_name_column_counterexample:
  "spec_name_column (header_fields csv_sample) = Some 1
   \<and> findIndex name_re (header_fields csv_sample) = Some 0
   \<and> row_names (parseCSV csv_sample) = [Some ''Ada'']
   \<and> parseCSVLine ''Ada,Bob'' ! 1 = ''Bob''"
  by code_simp


text \<open>
  Claim C7 fails on the code. The row is kept or dropped on its \<open>name\<close> and \<open>company\<close>
  after the headers were copied into it, and a header whose text is \<open>name\<close> or
  \<open>company\<close> overwrites the value resolved from the detected column. On the first text
  the one data line resolves to an empty name and an empty company, and one row is
  returned, named by the third column; on the second text the data line resolves to
  \<open>Ann\<close> and \<open>Acme\<close>, and no row is returned.
\<close>

theorem parseCSV_row_count_header_overwrite:
  "header_fields csv_overwrite = [''Name'', ''Company'', ''name'']
   \<and> data_lines csv_overwrite = ['',,Zed'']
   \<and> findIndex name_re (header_fields csv_overwrite) = Some 0
   \<and> findIndex company_re (header_fields csv_overwrite) = Some 1
   \<and> resolved_name (findIndex name_re (header_fields csv_overwrite)) (parseCSVLine '',,Zed'') = []
   \<and> resolved_company (findIndex company_re (header_fields csv_overwrite)) (parseCSVLine '',,Zed'')
       = []
   \<and> length (parseCSV csv_overwrite) = 1
   \<and> row_names (parseCSV csv_overwrite) = [Some ''Zed'']
   \<and> header_fields csv_overwrite2 = [''Name'', ''Company'', ''name'', ''company'']
   \<and> data_lines csv_overwrite2 = [''Ann,Acme,,'']
   \<and> resolved_name (findIndex name_re (header_fields csv_overwrite2)) (parseCSVLine ''Ann,Acme,,'')
       = ''Ann''
   \<and> resolved_company (findIndex company_re (header_fields csv_overwrite2))
         (parseCSVLine ''Ann,Acme,,'') = ''Acme''
   \<and> length (parseCSV csv_overwrite2) = 0"
  by code_simp

section \<open>Properties of the extraction\<close>

lemma calls_decrease:
  "calls caller callee \<Longrightarrow> (callee, caller) \<in> measures [call_measure, call_keys]"
  unfolding calls_def
  by (erule deepExtract_tryWrappers_scanValues_rel.cases)
     (auto simp: call_measure_def call_keys_def)

lemma wf_calls: "wf {(callee, caller). calls caller callee}"
  by (rule wf_subset [OF wf_measures [of "[call_measure, call_keys]"]])
     (auto dest: calls_decrease)

lemma calls_depth:
  "calls caller callee \<Longrightarrow>
   call_depth callee = (if is_deepExtract callee then call_depth caller + 1 else call_depth caller)"
  unfolding calls_def
  by (erule deepExtract_tryWrappers_scanValues_rel.cases) auto

lemma calls_from_deepExtract:
  "calls (Inl (p, obj, depth)) callee \<Longrightarrow> depth \<le> 10 \<and> \<not> falsy obj"
  unfolding calls_def
  by (erule deepExtract_tryWrappers_scanValues_rel.cases) auto

lemma deepExtract_beyond: "depth > 10 \<Longrightarrow> deepExtract p obj depth = empty_result"
  by (simp add: deepExtract.simps)

lemma cyclic_unfold: "cyclic u = JObj [(''self'', cyclic u)]"
  by (subst cyclic.code) simp

lemma deepExtract_single_key:
  assumes "depth \<le> 10" "k \<notin> set wrapperKeys" "k \<noteq> ''enriched_data''"
    and "truthy_object (Some x)"
  shows "deepExtract p (JObj [(k, x)]) depth
         = (if length (enriched (deepExtract p x (depth + 1))) > 0
            then deepExtract p x (depth + 1) else empty_result)"
  using assms
  by (subst deepExtract.simps) (simp add: wrapperKeys_def Let_def)

lemma truthy_cyclic: "truthy_object (Some (cyclic u))"
  by (subst cyclic_unfold) (simp add: truthy_object_def)

lemma deepExtract_cyclic: "deepExtract p (cyclic u) depth = empty_result"
proof (induction "11 - depth" arbitrary: depth)
  case 0
  then have "depth > 10" by simp
  then show ?case by (rule deepExtract_beyond)
next
  case (Suc n)
  then have d: "depth \<le> 10" and n: "n = 11 - (depth + 1)" by simp_all
  have inner: "deepExtract p (cyclic u) (depth + 1) = empty_result"
    using Suc.hyps(1) [OF n] .
  have "deepExtract p (JObj [(''self'', cyclic u)]) depth
        = (if length (enriched (deepExtract p (cyclic u) (depth + 1))) > 0
           then deepExtract p (cyclic u) (depth + 1) else empty_result)"
    by (rule deepExtract_single_key [OF d _ _ truthy_cyclic]) (simp_all add: wrapperKeys_def)
  then show ?case
    using inner by (subst cyclic_unfold) (simp add: empty_result_def)
qed

lemma deepExtract_nested: "depth + n > 10 \<Longrightarrow> deepExtract p (nested n v) depth = empty_result"
proof (induction n arbitrary: depth)
  case 0
  then show ?case by (simp add: deepExtract_beyond)
next
  case (Suc n)
  show ?case
  proof (cases "depth > 10")
    case True
    then show ?thesis by (rule deepExtract_beyond)
  next
    case False
    then have d: "depth \<le> 10" by simp
    have inner: "deepExtract p (nested n v) (depth + 1) = empty_result"
      using Suc.IH [of "depth + 1"] Suc.prems by simp
    show ?thesis
    proof (cases "truthy_object (Some (nested n v))")
      case True
      have "deepExtract p (JObj [(''level'', nested n v)]) depth
            = (if length (enriched (deepExtract p (nested n v) (depth + 1))) > 0
               then deepExtract p (nested n v) (depth + 1) else empty_result)"
        by (rule deepExtract_single_key [OF d _ _ True]) (simp_all add: wrapperKeys_def)
      then show ?thesis using inner by (simp add: empty_result_def)
    next
      case False
      then show ?thesis using d
        by (subst deepExtract.simps) (simp add: wrapperKeys_def Let_def)
    qed
  qed
qed

text \<open>
  Claim C1. The extraction is a total function and its recursion is well-founded: no
  input, finite or self-referential, has an infinite chain of recursive calls. Beyond
  depth 10 it returns the empty result and makes no recursive call; every recursive call
  of \<open>deepExtract\<close> is made at the caller's depth plus one, the loops running at the
  depth of their caller. A self-referential object and one nested more than ten levels
  deep give the empty result.
\<close>

theorem deepExtract_terminates:
  "wf {(callee, caller). calls caller callee}
   \<and> (depth > 10 \<longrightarrow>
        deepExtract p obj depth = empty_result \<and> (\<forall>callee. \<not> calls (Inl (p, obj, depth)) callee))
   \<and> (calls caller callee \<longrightarrow>
        call_depth callee
          = (if is_deepExtract callee then call_depth caller + 1 else call_depth caller))
   \<and> deepExtract p (cyclic u) depth = empty_result
   \<and> (depth + n > 10 \<longrightarrow> deepExtract p (nested n v) depth = empty_result)"
proof (intro conjI impI allI)
  show "wf {(callee, caller). calls caller callee}" by (rule wf_calls)
next
  assume "depth > 10"
  then show "deepExtract p obj depth = empty_result" by (rule deepExtract_beyond)
next
  fix callee
  assume "depth > 10"
  then show "\<not> calls (Inl (p, obj, depth)) callee"
    using calls_from_deepExtract [of p obj depth callee] by auto
next
  assume "calls caller callee"
  then show "call_depth callee
          = (if is_deepExtract callee then call_depth caller + 1 else call_depth caller)"
    by (rule calls_depth)
next
  show "deepExtract p (cyclic u) depth = empty_result" by (rule deepExtract_cyclic)
next
  assume "depth + n > 10"
  then show "deepExtract p (nested n v) depth = empty_result" by (rule deepExtract_nested)
qed

theorem deepExtract_terminates_witness:
  "deepExtract no_parse (JObj [(''enriched_data'', JArr [sample_record])]) 11 = empty_result
   \<and> deepExtract no_parse (nested 15 (JObj [(''enriched_data'', JArr [sample_record])])) 0
       = empty_result
   \<and> deepExtract no_parse (cyclic ()) 0 = empty_result
   \<and> calls (Inr (Inl (no_parse, JObj [(''result'', JNum 1)], [''result''], 0)))
            (Inl (no_parse, JNum 1, 1))
   \<and> call_depth (Inl (no_parse, JNum 1, 1)) = 1"
proof -
  let ?payload = "JObj [(''enriched_data'', JArr [sample_record])]"
  let ?caller = "Inr (Inl (no_parse, JObj [(''result'', JNum 1)], [''result''], 0)) :: call"
  let ?callee = "Inl (no_parse, JNum 1, 1) :: call"
  have c: "calls ?caller ?callee"
    unfolding calls_def
    using deepExtract_tryWrappers_scanValues_rel.intros(4)
            [of "JObj [(''result'', JNum 1)]" "''result''" no_parse 0 "[]"]
    by simp
  note A = deepExtract_terminates [of 11 no_parse ?payload ?caller ?callee "()" 0 ?payload]
  note B = deepExtract_terminates [of 0 no_parse ?payload ?caller ?callee "()" 15 ?payload]
  have "deepExtract no_parse ?payload 11 = empty_result"
    using A by simp
  moreover have "deepExtract no_parse (nested 15 ?payload) 0 = empty_result"
    using B by simp
  moreover have "deepExtract no_parse (cyclic ()) 0 = empty_result"
    using B by simp
  moreover have "call_depth ?callee = 1"
    using B c by simp
  ultimately show ?thesis using c by simp
qed

lemma tryWrappers_all_empty:
  "\<forall>key \<in> set keys. \<not> nullish (get_prop obj key) \<longrightarrow>
      enriched (deepExtract p (or_null (get_prop obj key)) (depth + 1)) = []
   \<Longrightarrow> tryWrappers p obj keys depth = None"
  by (induction keys) (auto simp: Let_def)

lemma find_enriched_data:
  assumes "map_of kvs ''enriched_data'' = Some (JArr a)"
  shows "find (\<lambda>key. key = ''enriched_data'' \<and> isArray (get_prop (JObj kvs) key))
           (own_keys (JObj kvs)) = Some ''enriched_data''"
proof -
  have mem: "''enriched_data'' \<in> set (map fst kvs)"
    using assms by (metis map_of_eq_None_iff option.distinct(1) set_map)
  have "\<exists>x. find (\<lambda>key. key = ''enriched_data'' \<and> isArray (get_prop (JObj kvs) key))
           (map fst kvs) = Some x"
    using mem assms by (cases "find (\<lambda>key. key = ''enriched_data'' \<and> isArray (get_prop (JObj kvs) key))
           (map fst kvs)") (auto simp: find_None_iff)
  then obtain x where x: "find (\<lambda>key. key = ''enriched_data'' \<and> isArray (get_prop (JObj kvs) key))
           (map fst kvs) = Some x" by blast
  then have "x = ''enriched_data''" by (auto simp: find_Some_iff)
  then show ?thesis using x by simp
qed

lemma deepExtract_empty_enriched_data:
  assumes d: "depth \<le> 10"
    and ed: "map_of kvs ''enriched_data'' = Some (JArr [])"
    and wr: "\<forall>key \<in> set wrapperKeys. \<not> nullish (map_of kvs key) \<longrightarrow>
               enriched (deepExtract p (or_null (map_of kvs key)) (depth + 1)) = []"
  shows "deepExtract p (JObj kvs) depth
         = \<lparr>enriched = [], summary = or_null (map_of kvs ''summary''), artifacts = []\<rparr>"
proof -
  have tw: "tryWrappers p (JObj kvs) wrapperKeys depth = None"
    by (rule tryWrappers_all_empty) (use wr in simp)
  show ?thesis
    using d ed tw find_enriched_data [OF ed]
    by (subst deepExtract.simps) simp
qed

lemma no_scan_after_enriched_data:
  assumes ed: "map_of kvs ''enriched_data'' = Some (JArr a)"
  shows "\<not> calls (Inl (p, JObj kvs, depth)) (Inr (Inr c))"
proof
  assume "calls (Inl (p, JObj kvs, depth)) (Inr (Inr c))"
  then have "find (\<lambda>key. key = ''enriched_data'' \<and> isArray (get_prop (JObj kvs) key))
               (own_keys (JObj kvs)) = None"
    unfolding calls_def
    by (cases rule: deepExtract_tryWrappers_scanValues_rel.cases) auto
  then show False using find_enriched_data [OF ed] by simp
qed

text \<open>
  Claim C10. Within the depth limit, for an object whose \<open>enriched_data\<close> is the empty
  array and whose wrapper keys (those present and not \<open>null\<close>) all extract to an empty
  enriched set, the extraction returns the empty enriched set with the object's own
  \<open>summary\<close> (or \<open>null\<close>) and no artifacts, and never calls the scan over all keys:
  whatever the other keys hold is not found.
\<close>

theorem deepExtract_stops_at_empty_enriched_data:
  "depth \<le> 10 \<and> map_of kvs ''enriched_data'' = Some (JArr [])
   \<and> (\<forall>key \<in> set wrapperKeys. \<not> nullish (map_of kvs key) \<longrightarrow>
          enriched (deepExtract p (or_null (map_of kvs key)) (depth + 1)) = [])
   \<longrightarrow> deepExtract p (JObj kvs) depth
         = \<lparr>enriched = [], summary = or_null (map_of kvs ''summary''), artifacts = []\<rparr>
       \<and> (\<forall>c. \<not> calls (Inl (p, JObj kvs, depth)) (Inr (Inr c)))"
  using deepExtract_empty_enriched_data [of depth kvs p] no_scan_after_enriched_data [of kvs "[]" p depth]
  by blast

theorem deepExtract_stops_at_empty_enriched_data_witness:
  "deepExtract no_parse hidden_data 0
     = \<lparr>enriched = [], summary = JStr ''none'', artifacts = []\<rparr>
   \<and> enriched (deepExtract no_parse (JObj [(''other'', JObj [(''enriched_data'', JArr [sample_record])])]) 0)
     = [sample_record]"
proof -
  let ?kvs = "[(''enriched_data'', JArr []), (''summary'', JStr ''none''),
           (''artifact_files'', JArr [JStr ''f'']),
           (''other'', JObj [(''enriched_data'', JArr [sample_record])])]"
  have wr: "\<forall>key \<in> set wrapperKeys. \<not> nullish (map_of ?kvs key) \<longrightarrow>
          enriched (deepExtract no_parse (or_null (map_of ?kvs key)) (0 + 1)) = []"
    by (simp add: wrapperKeys_def)
  have "deepExtract no_parse (JObj ?kvs) 0
         = \<lparr>enriched = [], summary = or_null (map_of ?kvs ''summary''), artifacts = []\<rparr>"
    using deepExtract_stops_at_empty_enriched_data [of 0 ?kvs no_parse] wr by simp
  then have a: "deepExtract no_parse hidden_data 0
     = \<lparr>enriched = [], summary = JStr ''none'', artifacts = []\<rparr>"
    by (simp add: hidden_data_def)
  have inner: "deepExtract no_parse (JObj [(''enriched_data'', JArr [sample_record])]) (Suc 0)
        = \<lparr>enriched = [sample_record], summary = JNull, artifacts = []\<rparr>"
    by (subst deepExtract.simps) simp
  have "deepExtract no_parse (JObj [(''other'', JObj [(''enriched_data'', JArr [sample_record])])]) 0
        = deepExtract no_parse (JObj [(''enriched_data'', JArr [sample_record])]) (Suc 0)"
    using deepExtract_single_key [of 0 "''other''" "JObj [(''enriched_data'', JArr [sample_record])]" no_parse]
    by (simp add: wrapperKeys_def truthy_object_def inner)
  then show ?thesis using a inner by simp
qed

lemma show_nat_digits: "\<forall>c \<in> set (show_nat n). 48 \<le> (of_char c :: nat) \<and> (of_char c :: nat) \<le> 57"
proof (induction n rule: show_nat.induct)
  case (1 n)
  show ?case
  proof (cases "n < 10")
    case True
    then show ?thesis by (subst show_nat.simps) simp
  next
    case False
    have "n mod 10 < 10" by simp
    then have "48 \<le> (of_char (char_of (48 + n mod 10)) :: nat)
               \<and> (of_char (char_of (48 + n mod 10)) :: nat) \<le> 57"
      by simp
    then show ?thesis using 1 False by (subst show_nat.simps) (auto simp del: of_char_of)
  qed
qed

lemma index_key_letter:
  assumes "c \<in> set k" "(of_char c :: nat) > 57"
  shows "map_of (zip (index_keys xs) ys) k = None"
proof -
  have "k \<notin> set (index_keys xs)"
    using assms show_nat_digits unfolding index_keys_def by fastforce
  then show ?thesis
    by (auto simp: map_of_eq_None_iff dest: set_zip_leftD)
qed

lemma get_prop_array_named:
  assumes "c \<in> set k" "(of_char c :: nat) > 57" "k \<noteq> ''length''"
  shows "get_prop (JArr xs) k = None"
  using index_key_letter [OF assms(1,2)] assms(3) by simp

lemma show_nat_0: "show_nat 0 = ''0''"
  by code_simp

lemma get_prop_array_first: "get_prop (JArr (x # xs)) ''0'' = Some x"
  by (simp add: index_keys_def upt_rec show_nat_0)

lemma in_op_object: "in_op k (Some (JObj kvs)) \<longleftrightarrow> k \<in> fst ` set kvs"
  by (simp add: in_op_def map_of_eq_None_iff)

lemma deepExtract_direct:
  assumes "depth \<le> 10" "A \<noteq> []"
  shows "deepExtract p (JObj [(''enriched_data'', JArr A)]) depth
         = \<lparr>enriched = A, summary = JNull, artifacts = []\<rparr>"
  using assms by (subst deepExtract.simps) simp

lemma deepExtract_result_wrapper:
  assumes "A \<noteq> []"
  shows "deepExtract p (JObj [(''result'', JObj [(''enriched_data'', JArr A)])]) 0
         = \<lparr>enriched = A, summary = JNull, artifacts = []\<rparr>"
proof -
  have inner: "deepExtract p (JObj [(''enriched_data'', JArr A)]) (Suc 0)
         = \<lparr>enriched = A, summary = JNull, artifacts = []\<rparr>"
    by (rule deepExtract_direct) (use assms in simp_all)
  show ?thesis
    using assms by (subst deepExtract.simps) (simp add: wrapperKeys_def inner)
qed

lemma deepExtract_response_string:
  assumes "A \<noteq> []" "p s = Some (JObj [(''enriched_data'', JArr A)])" "s \<noteq> []"
  shows "deepExtract p (JObj [(''response'', JStr s)]) 0
         = \<lparr>enriched = A, summary = JNull, artifacts = []\<rparr>"
proof -
  have inner2: "deepExtract p (JObj [(''enriched_data'', JArr A)]) (Suc (Suc 0))
         = \<lparr>enriched = A, summary = JNull, artifacts = []\<rparr>"
    by (rule deepExtract_direct) (use assms in simp_all)
  have inner1: "deepExtract p (JStr s) (Suc 0) = \<lparr>enriched = A, summary = JNull, artifacts = []\<rparr>"
    using assms by (subst deepExtract.simps) (simp add: truthy_object_def inner2)
  show ?thesis
    using assms by (subst deepExtract.simps) (simp add: wrapperKeys_def inner1)
qed

lemma deepExtract_bare_array:
  assumes "''name'' \<in> fst ` set kvs \<or> ''company'' \<in> fst ` set kvs"
    and "''revenue'' \<in> fst ` set kvs \<or> ''sector'' \<in> fst ` set kvs
         \<or> ''decision_maker'' \<in> fst ` set kvs"
  shows "deepExtract p (JArr (JObj kvs # rest)) 0
         = \<lparr>enriched = JObj kvs # rest, summary = JNull, artifacts = []\<rparr>"
proof -
  have ed: "get_prop (JArr (JObj kvs # rest)) ''enriched_data'' = None"
    by (rule get_prop_array_named [of "CHR ''e''"]) simp_all
  have first: "get_prop (JArr (JObj kvs # rest)) ''0'' = Some (JObj kvs)"
    by (rule get_prop_array_first)
  have subj: "in_op ''name'' (Some (JObj kvs)) \<or> in_op ''company'' (Some (JObj kvs))"
    using assms(1) by (simp only: in_op_object)
  have attr: "in_op ''revenue'' (Some (JObj kvs)) \<or> in_op ''sector'' (Some (JObj kvs))
              \<or> in_op ''decision_maker'' (Some (JObj kvs))"
    using assms(2) by (simp only: in_op_object)
  show ?thesis
    using subj attr
    by (subst deepExtract.simps) (simp only: ed first, simp add: truthy_object_def)
qed

lemma those_map_Some:
  "(\<And>x. x \<in> set xs \<Longrightarrow> f x \<noteq> None) \<Longrightarrow> those (map f xs) = Some (map (\<lambda>x. the (f x)) xs)"
  by (induction xs) (auto split: option.splits)

text \<open>
  Claim C2. Let \<open>A\<close> be a non-empty array whose first element is an object with a
  \<open>name\<close> or \<open>company\<close> key and a \<open>revenue\<close>, \<open>sector\<close> or \<open>decision_maker\<close> key.
  Extracting from \<open>{result: {enriched_data: A}}\<close>, from \<open>{response: s}\<close> where the
  lenient decoder reads the (non-empty) string \<open>s\<close> as \<open>{enriched_data: A}\<close>, and from
  \<open>A\<close> itself, and normalizing, gives three times the same result, the normalization of
  the elements of \<open>A\<close>; it is a sequence of records when no element is \<open>null\<close>.
\<close>

theorem extraction_three_shapes:
  assumes "A = JObj kvs # rest"
    and "''name'' \<in> fst ` set kvs \<or> ''company'' \<in> fst ` set kvs"
    and "''revenue'' \<in> fst ` set kvs \<or> ''sector'' \<in> fst ` set kvs
         \<or> ''decision_maker'' \<in> fst ` set kvs"
    and "parseLLMJson s = Some (JObj [(''enriched_data'', JArr A)])" and "s \<noteq> []"
  shows "normalizedEnriched Number_toString Array_toString
           (deepExtract parseLLMJson (JObj [(''result'', JObj [(''enriched_data'', JArr A)])]) 0)
         = those (map (normalizeRecord Number_toString Array_toString) A)
       \<and> normalizedEnriched Number_toString Array_toString
           (deepExtract parseLLMJson (JObj [(''response'', JStr s)]) 0)
         = those (map (normalizeRecord Number_toString Array_toString) A)
       \<and> normalizedEnriched Number_toString Array_toString (deepExtract parseLLMJson (JArr A) 0)
         = those (map (normalizeRecord Number_toString Array_toString) A)
       \<and> ((\<forall>r \<in> set A. r \<noteq> JNull) \<longrightarrow>
            those (map (normalizeRecord Number_toString Array_toString) A)
            = Some (map (\<lambda>r. the (normalizeRecord Number_toString Array_toString r)) A))"
proof -
  have ne: "A \<noteq> []" using assms(1) by simp
  have "deepExtract parseLLMJson (JObj [(''result'', JObj [(''enriched_data'', JArr A)])]) 0
        = \<lparr>enriched = A, summary = JNull, artifacts = []\<rparr>"
    by (rule deepExtract_result_wrapper [OF ne])
  moreover have "deepExtract parseLLMJson (JObj [(''response'', JStr s)]) 0
        = \<lparr>enriched = A, summary = JNull, artifacts = []\<rparr>"
    using deepExtract_response_string [of A parseLLMJson s] ne assms(4,5) by blast
  moreover have "deepExtract parseLLMJson (JArr A) 0
        = \<lparr>enriched = A, summary = JNull, artifacts = []\<rparr>"
    unfolding assms(1) by (rule deepExtract_bare_array [OF assms(2,3)])
  moreover have "(\<forall>r \<in> set A. r \<noteq> JNull) \<longrightarrow>
            those (map (normalizeRecord Number_toString Array_toString) A)
            = Some (map (\<lambda>r. the (normalizeRecord Number_toString Array_toString r)) A)"
  proof
    assume nn: "\<forall>r \<in> set A. r \<noteq> JNull"
    have "\<And>r. r \<in> set A \<Longrightarrow> normalizeRecord Number_toString Array_toString r \<noteq> None"
    proof -
      fix r assume "r \<in> set A"
      then have "r \<noteq> JNull" using nn by blast
      then have "\<not> nullish (Some r)" by (cases r) simp_all
      then show "normalizeRecord Number_toString Array_toString r \<noteq> None" by (simp add: normalizeRecord_def)
    qed
    then show "those (map (normalizeRecord Number_toString Array_toString) A)
            = Some (map (\<lambda>r. the (normalizeRecord Number_toString Array_toString r)) A)"
      by (rule those_map_Some)
  qed
  ultimately show ?thesis by (simp add: normalizedEnriched_def)
qed

lemmas alias_defs =
  name_aliases_def company_aliases_def revenue_aliases_def sector_aliases_def
  decision_maker_aliases_def job_title_aliases_def confidence_aliases_def

lemma normalize_sample: "normalizeRecord show_int flat_toString sample_record = Some sample_normalized"
  by (simp add: normalizeRecord_def sample_record_def sample_normalized_def alias_defs)

theorem extraction_three_shapes_witness:
  "normalizedEnriched show_int flat_toString
     (deepExtract sample_parse (JObj [(''result'', JObj [(''enriched_data'', JArr [sample_record])])]) 0)
     = Some [sample_normalized]
   \<and> normalizedEnriched show_int flat_toString
       (deepExtract sample_parse (JObj [(''response'', JStr sample_text)]) 0)
     = Some [sample_normalized]
   \<and> normalizedEnriched show_int flat_toString (deepExtract sample_parse (JArr [sample_record]) 0)
     = Some [sample_normalized]"
proof -
  let ?kvs = "[(''name'', JStr ''Jane Doe''), (''company'', JStr ''Acme Corp''),
           (''revenue'', JStr ''$10M''), (''sector'', JStr ''SaaS''),
           (''decision_maker'', JStr ''Yes''), (''job_title'', JStr ''CTO''),
           (''confidence'', JStr ''High'')]"
  have a: "[sample_record] = JObj ?kvs # []" by (simp add: sample_record_def)
  have b: "''name'' \<in> fst ` set ?kvs \<or> ''company'' \<in> fst ` set ?kvs" by simp
  have c: "''revenue'' \<in> fst ` set ?kvs \<or> ''sector'' \<in> fst ` set ?kvs
           \<or> ''decision_maker'' \<in> fst ` set ?kvs" by simp
  have d: "sample_parse sample_text = Some (JObj [(''enriched_data'', JArr [sample_record])])"
    by (simp add: sample_parse_def)
  have e: "sample_text \<noteq> []" by (simp add: sample_text_def)
  have f: "those (map (normalizeRecord show_int flat_toString) [sample_record]) = Some [sample_normalized]"
    by (simp add: normalize_sample)
  note T = extraction_three_shapes
             [of "[sample_record]" ?kvs "[]" sample_parse sample_text show_int flat_toString]
  show ?thesis
    using T [OF a b c d e, unfolded f] by blast
qed










text \<open>
  Claim C8 fails on the code. The two probes inside the decoded raw string return the first
  array found, empty or not, while the two probes of the envelope ask for a non-empty one:
  on the raw response above the locator returns no file although the second raw path
  holds one, and on the same structure given as the envelope it returns that file.
\<close>

theorem extractArtifactFiles_raw_empty_array:
  "extractArtifactFiles raw_parse (JObj [(''success'', JBool True), (''raw_response'', JStr raw_text)])
     = []
   \<and> items (opt_prop (opt_prop (opt_prop (raw_parse raw_text) ''response'') ''module_outputs'')
              ''artifact_files'')
     = [JObj [(''file_url'', JStr ''u'')]]
   \<and> extractArtifactFiles raw_parse raw_value = [JObj [(''file_url'', JStr ''u'')]]"
  by (simp add: extractArtifactFiles_def raw_parse_def raw_value_def opt_prop_def raw_text_def dq_def)

section \<open>Properties of filtering and sorting\<close>

lemma str_less_irrefl: "\<not> str_less a a"
  by (induction a) auto

lemma str_less_trans: "str_less a b \<Longrightarrow> str_less b c \<Longrightarrow> str_less a c"
proof (induction a arbitrary: b c)
  case Nil
  then show ?case by (cases b; cases c) auto
next
  case (Cons x xs)
  obtain y ys where b: "b = y # ys" using Cons.prems(1) by (cases b) auto
  obtain z zs where c: "c = z # zs" using Cons.prems(2) b by (cases c) auto
  show ?case
    using Cons.prems Cons.IH [of ys zs] unfolding b c by (auto split: if_splits)
qed

lemma str_less_total: "\<not> str_less a b \<Longrightarrow> \<not> str_less b a \<Longrightarrow> a = b"
  by (induction a b rule: str_less.induct) (auto split: if_splits)

lemma str_less_asym: "str_less a b \<Longrightarrow> \<not> str_less b a"
  using str_less_trans [of a b a] str_less_irrefl [of a] by blast

lemma str_less_neg_trans:
  assumes "\<not> str_less b a" "\<not> str_less c b"
  shows "\<not> str_less c a"
proof
  assume ca: "str_less c a"
  show False
  proof (cases "str_less a b")
    case True
    then have "str_less c b" using ca str_less_trans by blast
    then show False using assms(2) by simp
  next
    case False
    then have "a = b" using assms(1) str_less_total by blast
    then show False using ca assms(2) by simp
  qed
qed

lemma compareFn_Asc: "compareFn f Asc a b \<le> 0 \<longleftrightarrow> \<not> str_less (sortValue f b) (sortValue f a)"
  using str_less_asym [of "sortValue f a" "sortValue f b"]
  by (auto simp: compareFn_def Let_def)

lemma compareFn_Desc: "compareFn f Desc a b \<le> 0 \<longleftrightarrow> \<not> str_less (sortValue f a) (sortValue f b)"
  by (auto simp: compareFn_def Let_def)

lemma compareFn_total: "compareFn f d a b \<le> 0 \<or> compareFn f d b a \<le> 0"
  using str_less_asym [of "sortValue f a" "sortValue f b"]
  by (cases d) (auto simp: compareFn_Asc compareFn_Desc)

lemma compareFn_trans:
  "compareFn f d a b \<le> 0 \<Longrightarrow> compareFn f d b c \<le> 0 \<Longrightarrow> compareFn f d a c \<le> 0"
  using str_less_neg_trans [of "sortValue f b" "sortValue f a" "sortValue f c"]
    str_less_neg_trans [of "sortValue f b" "sortValue f c" "sortValue f a"]
  by (cases d) (auto simp: compareFn_Asc compareFn_Desc)

lemma compareFn_equal_keys: "sortValue f a = sortValue f b \<Longrightarrow> compareFn f d a b = 0"
  by (simp add: compareFn_def str_less_irrefl)

lemma set_insert_sorted: "set (insert_sorted cmp x ys) = insert x (set ys)"
  by (induction ys) auto

lemma mset_insert_sorted: "mset (insert_sorted cmp x ys) = add_mset x (mset ys)"
  by (induction ys) auto

lemma mset_js_sort: "mset (js_sort cmp xs) = mset xs"
  by (induction xs) (simp_all add: js_sort_def mset_insert_sorted)

lemma set_js_sort: "set (js_sort cmp xs) = set xs"
  using mset_js_sort [of cmp xs] by (metis set_mset_mset)

lemma sorted_insert_sorted:
  assumes total: "\<And>a b. cmp a b \<le> 0 \<or> cmp b a \<le> 0"
    and trans: "\<And>a b c. cmp a b \<le> 0 \<Longrightarrow> cmp b c \<le> 0 \<Longrightarrow> cmp a c \<le> 0"
  shows "sorted_wrt (\<lambda>a b. cmp a b \<le> 0) ys \<Longrightarrow>
         sorted_wrt (\<lambda>a b. cmp a b \<le> 0) (insert_sorted cmp x ys)"
proof (induction ys)
  case Nil
  then show ?case by simp
next
  case (Cons y ys)
  show ?case
  proof (cases "cmp x y \<le> 0")
    case True
    then have "\<forall>z \<in> set ys. cmp x z \<le> 0"
      using Cons.prems trans by auto
    then show ?thesis using True Cons.prems by simp
  next
    case False
    then have "cmp y x \<le> 0" using total [of x y] by simp
    then show ?thesis
      using False Cons by (auto simp: set_insert_sorted)
  qed
qed

lemma sorted_js_sort:
  assumes "\<And>a b. cmp a b \<le> 0 \<or> cmp b a \<le> 0"
    and "\<And>a b c. cmp a b \<le> 0 \<Longrightarrow> cmp b c \<le> 0 \<Longrightarrow> cmp a c \<le> 0"
  shows "sorted_wrt (\<lambda>a b. cmp a b \<le> 0) (js_sort cmp xs)"
proof (induction xs)
  case Nil
  then show ?case by (simp add: js_sort_def)
next
  case (Cons x xs)
  have "js_sort cmp (x # xs) = insert_sorted cmp x (js_sort cmp xs)"
    by (simp add: js_sort_def)
  then show ?case
    using sorted_insert_sorted [of cmp "js_sort cmp xs" x, OF assms Cons.IH] by simp
qed

lemma js_sort_sorted_id:
  "sorted_wrt (\<lambda>a b. cmp a b \<le> 0) xs \<Longrightarrow> js_sort cmp xs = xs"
proof (induction xs)
  case Nil
  then show ?case by (simp add: js_sort_def)
next
  case (Cons x xs)
  then have tl: "js_sort cmp xs = xs" by simp
  have "js_sort cmp (x # xs) = insert_sorted cmp x (js_sort cmp xs)"
    by (simp add: js_sort_def)
  then show ?case using tl Cons.prems by (cases xs) auto
qed

lemma filter_insert_sorted:
  assumes eq: "\<And>a b. key a = key b \<Longrightarrow> cmp a b \<le> 0"
  shows "filter (\<lambda>y. key y = k) (insert_sorted cmp x ys)
         = (if key x = k then x # filter (\<lambda>y. key y = k) ys else filter (\<lambda>y. key y = k) ys)"
proof (induction ys)
  case Nil
  then show ?case by simp
next
  case (Cons y ys)
  show ?case
  proof (cases "cmp x y \<le> 0")
    case True
    then show ?thesis by simp
  next
    case False
    then have "key x \<noteq> key y" using eq [of x y] by auto
    then show ?thesis using False Cons by auto
  qed
qed

lemma js_sort_stable:
  assumes "\<And>a b. key a = key b \<Longrightarrow> cmp a b \<le> 0"
  shows "filter (\<lambda>y. key y = k) (js_sort cmp xs) = filter (\<lambda>y. key y = k) xs"
proof (induction xs)
  case Nil
  then show ?case by (simp add: js_sort_def)
next
  case (Cons x xs)
  have "js_sort cmp (x # xs) = insert_sorted cmp x (js_sort cmp xs)"
    by (simp add: js_sort_def)
  then show ?case
    using filter_insert_sorted [of key cmp k x "js_sort cmp xs", OF assms] Cons.IH by simp
qed

lemma applyFilter_filter:
  "applyFilter m data
   = filter (\<lambda>r. (m = Mode_low_confidence \<longrightarrow> regex_test_ci ''low'' (confidence r))
              \<and> (m = Mode_decision_makers \<longrightarrow> regex_test_ci ''yes'' (decision_maker r))) data"
  by (cases m) (simp_all add: applyFilter_def)

lemma applyFilter_idem:
  "set ys \<subseteq> set (applyFilter m data) \<Longrightarrow> applyFilter m ys = ys"
  unfolding applyFilter_filter by (auto simp: filter_id_conv)

lemma filterSort_idem: "filterSort m f d (filterSort m f d data) = filterSort m f d data"
proof -
  let ?ys = "js_sort (compareFn f d) (applyFilter m data)"
  have "applyFilter m ?ys = ?ys"
    by (rule applyFilter_idem [of _ m data]) (simp add: set_js_sort)
  moreover have "sorted_wrt (\<lambda>a b. compareFn f d a b \<le> 0) ?ys"
    by (rule sorted_js_sort) (use compareFn_total compareFn_trans in blast)+
  ultimately show ?thesis
    by (simp add: filterSort_def js_sort_sorted_id)
qed

lemma str_less_lexord:
  "str_less s t \<longleftrightarrow> (s, t) \<in> lexord {(c, c'). (of_char c :: nat) < of_char c'}"
proof (induction s t rule: str_less.induct)
  case (4 x xs y ys)
  have inj: "(of_char x :: nat) = of_char y \<longleftrightarrow> x = y" by simp
  show ?case
  proof (cases "(of_char x :: nat) < of_char y")
    case True
    then show ?thesis by simp
  next
    case False
    note nlt = this
    show ?thesis
    proof (cases "(of_char y :: nat) < of_char x")
      case True
      then have "x \<noteq> y" by auto
      then show ?thesis using nlt True by simp
    next
      case False
      then have "x = y" using nlt inj by linarith
      then show ?thesis using 4 nlt False by simp
    qed
  qed
qed simp_all

lemma lower_char_upper:
  "65 \<le> (of_char c :: nat) \<and> (of_char c :: nat) \<le> 90
   \<Longrightarrow> (of_char (lower_char c) :: nat) = of_char c + 32"
  by (simp add: lower_char_def Let_def)

lemma lower_char_other:
  "(of_char c :: nat) < 65 \<or> (90 < (of_char c :: nat) \<and> (of_char c :: nat) < 192)
   \<Longrightarrow> lower_char c = c"
  by (auto simp: lower_char_def Let_def)

lemma ascii_lower_upper:
  "65 \<le> (of_char c :: nat) \<and> (of_char c :: nat) \<le> 90
   \<Longrightarrow> (of_char (ascii_lower c) :: nat) = of_char c + 32"
  by (simp add: ascii_lower_def Let_def)

lemma ascii_lower_other:
  "(of_char c :: nat) < 65 \<or> 90 < (of_char c :: nat) \<Longrightarrow> ascii_lower c = c"
  by (auto simp: ascii_lower_def Let_def)

lemma regex_test_ci_iff:
  "regex_test_ci pat s \<longleftrightarrow> (\<exists>u v w. s = u @ v @ w \<and> map ascii_lower v = pat)"
proof (induction s)
  case Nil
  then show ?case by auto
next
  case (Cons c cs)
  show ?case
  proof
    assume "regex_test_ci pat (c # cs)"
    then consider (here) "lit_ci pat (take (length pat) (c # cs))" | (later) "regex_test_ci pat cs"
      by auto
    then show "\<exists>u v w. c # cs = u @ v @ w \<and> map ascii_lower v = pat"
    proof cases
      case here
      have "c # cs = [] @ take (length pat) (c # cs) @ drop (length pat) (c # cs)" by simp
      then show ?thesis using here unfolding lit_ci_def by blast
    next
      case later
      then obtain u v w where "cs = u @ v @ w" "map ascii_lower v = pat"
        using Cons.IH by blast
      then have "c # cs = (c # u) @ v @ w \<and> map ascii_lower v = pat" by simp
      then show ?thesis by blast
    qed
  next
    assume "\<exists>u v w. c # cs = u @ v @ w \<and> map ascii_lower v = pat"
    then obtain u v w where h: "c # cs = u @ v @ w" "map ascii_lower v = pat" by blast
    show "regex_test_ci pat (c # cs)"
    proof (cases u)
      case Nil
      have "length v = length pat" using h(2) by (metis length_map)
      then have "take (length pat) (c # cs) = v" using h(1) Nil by simp
      then show ?thesis using h(2) by (simp add: lit_ci_def)
    next
      case (Cons d u')
      then have "cs = u' @ v @ w" using h(1) by simp
      then have "regex_test_ci pat cs" using Cons.IH h(2) by blast
      then show ?thesis by simp
    qed
  qed
qed

text \<open>
  Claim C9. Filtering keeps a subsequence of the records, those that pass the mode's test
  (the text \<open>low\<close>, or \<open>yes\<close>, occurs in the field in either case), in their order.
  \<open>filterSort\<close> sorts the filtered records: the sort permutes them, orders them by the
  comparator and keeps the records of equal key in their prior order. The comparator
  compares the lower-cased texts of the chosen field in the lexicographic order of their
  code units, ascending or descending, so that texts that differ in the case of their
  letters only compare equal; lower-casing adds 32 to the code of an upper-case ASCII
  letter and leaves the other code units below 192 alone. Filtering and sorting the
  result again with the same mode, field and direction changes nothing.
  \<open>getFilteredData\<close> is this filter and sort of the page's records.
\<close>

theorem filterSort_stable_idempotent:
  "subseq (applyFilter m data) data
   \<and> applyFilter m data
       = filter (\<lambda>r. (m = Mode_low_confidence \<longrightarrow> regex_test_ci ''low'' (confidence r))
                  \<and> (m = Mode_decision_makers \<longrightarrow> regex_test_ci ''yes'' (decision_maker r))) data
   \<and> (regex_test_ci pat s \<longleftrightarrow> (\<exists>u v w. s = u @ v @ w \<and> map ascii_lower v = pat))
   \<and> filterSort m f d data = js_sort (compareFn f d) (applyFilter m data)
   \<and> mset (js_sort (compareFn f d) xs) = mset xs
   \<and> sorted_wrt (\<lambda>a b. compareFn f d a b \<le> 0) (js_sort (compareFn f d) xs)
   \<and> (compareFn f Asc a b \<le> 0
        \<longleftrightarrow> \<not> str_less (toLowerCase (field_value f b)) (toLowerCase (field_value f a)))
   \<and> (compareFn f Desc a b \<le> 0
        \<longleftrightarrow> \<not> str_less (toLowerCase (field_value f a)) (toLowerCase (field_value f b)))
   \<and> (toLowerCase (field_value f a) = toLowerCase (field_value f b) \<longrightarrow> compareFn f d a b = 0)
   \<and> (str_less s t \<longleftrightarrow> (s, t) \<in> lexord {(c, c'). (of_char c :: nat) < of_char c'})
   \<and> toLowerCase s = map lower_char s
   \<and> (65 \<le> (of_char c :: nat) \<and> (of_char c :: nat) \<le> 90
        \<longrightarrow> (of_char (lower_char c) :: nat) = of_char c + 32
            \<and> (of_char (ascii_lower c) :: nat) = of_char c + 32)
   \<and> ((of_char c :: nat) < 65 \<or> (90 < (of_char c :: nat) \<and> (of_char c :: nat) < 192)
        \<longrightarrow> lower_char c = c \<and> ascii_lower c = c)
   \<and> field_value Field_name r = name r \<and> field_value Field_company r = company r
   \<and> field_value Field_revenue r = revenue r \<and> field_value Field_sector r = sector r
   \<and> field_value Field_confidence r = confidence r
   \<and> field_value Field_job_title r = job_title r
   \<and> field_value Field_decision_maker r = decision_maker r
   \<and> filter (\<lambda>r. toLowerCase (field_value f r) = k) (js_sort (compareFn f d) xs)
       = filter (\<lambda>r. toLowerCase (field_value f r) = k) xs
   \<and> filterSort m f d (filterSort m f d data) = filterSort m f d data
   \<and> (enrichedData st \<noteq> [] \<longrightarrow>
        getFilteredData st
        = filterSort (filterMode st) (sortField st) (sortDir st) (enrichedData st))"
proof (intro conjI)
  show "applyFilter m data
       = filter (\<lambda>r. (m = Mode_low_confidence \<longrightarrow> regex_test_ci ''low'' (confidence r))
                  \<and> (m = Mode_decision_makers \<longrightarrow> regex_test_ci ''yes'' (decision_maker r))) data"
    by (rule applyFilter_filter)
  then show "subseq (applyFilter m data) data"
    by (simp only: subseq_filter_left)
  show "regex_test_ci pat s \<longleftrightarrow> (\<exists>u v w. s = u @ v @ w \<and> map ascii_lower v = pat)"
    by (rule regex_test_ci_iff)
  show "filterSort m f d data = js_sort (compareFn f d) (applyFilter m data)"
    by (simp add: filterSort_def)
  show "mset (js_sort (compareFn f d) xs) = mset xs"
    by (rule mset_js_sort)
  show "sorted_wrt (\<lambda>a b. compareFn f d a b \<le> 0) (js_sort (compareFn f d) xs)"
    by (rule sorted_js_sort) (use compareFn_total compareFn_trans in blast)+
  show "compareFn f Asc a b \<le> 0
        \<longleftrightarrow> \<not> str_less (toLowerCase (field_value f b)) (toLowerCase (field_value f a))"
    using compareFn_Asc [of f a b] by (simp add: sortValue_def)
  show "compareFn f Desc a b \<le> 0
        \<longleftrightarrow> \<not> str_less (toLowerCase (field_value f a)) (toLowerCase (field_value f b))"
    using compareFn_Desc [of f a b] by (simp add: sortValue_def)
  show "toLowerCase (field_value f a) = toLowerCase (field_value f b) \<longrightarrow> compareFn f d a b = 0"
    using compareFn_equal_keys [of f a b d] by (simp add: sortValue_def)
  show "str_less s t \<longleftrightarrow> (s, t) \<in> lexord {(c, c'). (of_char c :: nat) < of_char c'}"
    by (rule str_less_lexord)
  show "toLowerCase s = map lower_char s"
    by (simp add: toLowerCase_def)
  show "65 \<le> (of_char c :: nat) \<and> (of_char c :: nat) \<le> 90
        \<longrightarrow> (of_char (lower_char c) :: nat) = of_char c + 32
            \<and> (of_char (ascii_lower c) :: nat) = of_char c + 32"
    using lower_char_upper [of c] ascii_lower_upper [of c] by blast
  show "(of_char c :: nat) < 65 \<or> (90 < (of_char c :: nat) \<and> (of_char c :: nat) < 192)
        \<longrightarrow> lower_char c = c \<and> ascii_lower c = c"
    using lower_char_other [of c] ascii_lower_other [of c] by blast
  show "filter (\<lambda>r. toLowerCase (field_value f r) = k) (js_sort (compareFn f d) xs)
       = filter (\<lambda>r. toLowerCase (field_value f r) = k) xs"
    by (rule js_sort_stable) (simp add: compareFn_equal_keys sortValue_def)
  show "filterSort m f d (filterSort m f d data) = filterSort m f d data"
    by (rule filterSort_idem)
  show "enrichedData st \<noteq> [] \<longrightarrow>
        getFilteredData st
        = filterSort (filterMode st) (sortField st) (sortDir st) (enrichedData st)"
    by (simp add: getFilteredData_def)
qed simp_all

theorem filterSort_stable_idempotent_witness:
  "map name (getFilteredData sample_state) = [''Sarah Chen'', ''James Park'', ''Marcus Johnson'']
   \<and> filterSort Mode_decision_makers Field_company Desc (getFilteredData sample_state)
     = getFilteredData sample_state
   \<and> map name (filterSort Mode_decision_makers Field_company Asc mixed_case_records)
     = [''b'', ''c'', ''e'', ''a'']
   \<and> map name (filterSort Mode_decision_makers Field_company Desc mixed_case_records)
     = [''a'', ''e'', ''b'', ''c'']
   \<and> map name (filterSort Mode_low_confidence Field_name Asc mixed_case_records) = [''b'', ''d'']
   \<and> compareFn Field_company Asc (mixed_case_records ! 1) (mixed_case_records ! 2) = 0
   \<and> filterSort Mode_decision_makers Field_company Asc
       (filterSort Mode_decision_makers Field_company Asc mixed_case_records)
     = filterSort Mode_decision_makers Field_company Asc mixed_case_records"
proof -
  have ne: "enrichedData sample_state \<noteq> []"
    by (simp add: sample_state_def SAMPLE_ENRICHED_def)
  note S = filterSort_stable_idempotent
             [where st = sample_state and m = Mode_decision_makers and f = Field_company
                and d = Desc and data = SAMPLE_ENRICHED]
  note M = filterSort_stable_idempotent
             [where m = Mode_decision_makers and f = Field_company and d = Asc
                and data = mixed_case_records and a = "mixed_case_records ! 1"
                and b = "mixed_case_records ! 2"]
  have g: "getFilteredData sample_state
           = filterSort Mode_decision_makers Field_company Desc SAMPLE_ENRICHED"
    using S ne by (simp add: sample_state_def)
  have v: "map name (filterSort Mode_decision_makers Field_company Desc SAMPLE_ENRICHED)
           = [''Sarah Chen'', ''James Park'', ''Marcus Johnson'']"
    by code_simp
  have i: "filterSort Mode_decision_makers Field_company Desc
             (filterSort Mode_decision_makers Field_company Desc SAMPLE_ENRICHED)
           = filterSort Mode_decision_makers Field_company Desc SAMPLE_ENRICHED"
    using S by blast
  have m1: "map name (filterSort Mode_decision_makers Field_company Asc mixed_case_records)
            = [''b'', ''c'', ''e'', ''a'']"
    by code_simp
  have m2: "map name (filterSort Mode_decision_makers Field_company Desc mixed_case_records)
            = [''a'', ''e'', ''b'', ''c'']"
    by code_simp
  have m3: "map name (filterSort Mode_low_confidence Field_name Asc mixed_case_records) = [''b'', ''d'']"
    by code_simp
  have k: "toLowerCase (field_value Field_company (mixed_case_records ! 1))
           = toLowerCase (field_value Field_company (mixed_case_records ! 2))"
    by code_simp
  have m4: "compareFn Field_company Asc (mixed_case_records ! 1) (mixed_case_records ! 2) = 0"
    using M k by blast
  have m5: "filterSort Mode_decision_makers Field_company Asc
       (filterSort Mode_decision_makers Field_company Asc mixed_case_records)
     = filterSort Mode_decision_makers Field_company Asc mixed_case_records"
    using M by blast
  show ?thesis using g v i m1 m2 m3 m4 m5 by simp
qed

end
